theory Spec2Isabelle
  imports Complex_Main "HOL-Library.Sublist"
begin

section \<open>Python values\<close>

text \<open>
  A Python \<open>str\<close> is the list of its code points, so that slices such as
  \<open>question[:50]\<close> count characters as Python does. ASCII literals of the source are
  written through \<open>ascii\<close>; the Chinese literals are given by their code points.
\<close>

type_synonym pystr = "nat list"

definition ascii :: "string \<Rightarrow> pystr" where
  "ascii s = map of_char s"

text \<open>
  The exceptions the modelled code can meet. Whatever an external capability raises is a
  value of this type as well (\<open>CapabilityError\<close> carries its message); all of them are
  subclasses of \<open>Exception\<close>. \<open>JSONDecodeError\<close> is a subclass of \<open>ValueError\<close>;
  the constructor \<open>ValueError\<close> stands for a \<open>ValueError\<close> that is not a
  \<open>JSONDecodeError\<close>.
\<close>

datatype exn =
    KeyError
  | AttributeError
  | TypeError
  | ValueError
  | UnboundLocalError
  | RecursionError
  | ValidationError
  | JSONDecodeError
  | CapabilityError pystr

text \<open>
  An entry of a dictionary under a fixed key: the key is absent, holds \<open>None\<close>, or
  holds a value. \<open>d.get(k)\<close> gives \<open>None\<close> in the first two cases.
\<close>

datatype 'a field = Missing | Null | Val 'a

fun dict_get :: "'a field \<Rightarrow> 'a option" where
  "dict_get Missing = None"
| "dict_get Null = None"
| "dict_get (Val v) = Some v"

text \<open>
  What \<open>json.loads\<close> returns. \<open>JNum\<close> is an \<open>int\<close> or a finite \<open>float\<close> by its
  value (the code treats both alike); the other three floats have a constructor each. A
  \<open>dict\<close> is the list of its items in insertion order, every key once.
\<close>

datatype json =
    JNull
  | JBool bool
  | JNum rat
  | JNaN
  | JInfinity
  | JNegInfinity
  | JStr pystr
  | JArr "json list"
  | JObj "(pystr \<times> json) list"

fun truthy :: "json \<Rightarrow> bool" where
  "truthy JNull = False"
| "truthy (JBool b) = b"
| "truthy (JNum n) = (n \<noteq> 0)"
| "truthy JNaN = True"
| "truthy JInfinity = True"
| "truthy JNegInfinity = True"
| "truthy (JStr s) = (s \<noteq> [])"
| "truthy (JArr xs) = (xs \<noteq> [])"
| "truthy (JObj kvs) = (kvs \<noteq> [])"

text \<open>
  Library functions the code calls and this repository does not define: \<open>json.loads\<close>,
  which returns the decoded value or raises (a \<open>JSONDecodeError\<close> for a text that is
  not JSON, or another exception, such as the \<open>RecursionError\<close> of a text nested too
  deeply), \<open>str.lower\<close>, and pydantic's validation of a JSON-decoded value against the
  field types \<open>str\<close>, \<open>Optional[str]\<close>, \<open>List[str]\<close> and \<open>bool\<close> (\<open>None\<close> stands
  for \<open>ValidationError\<close>). They are parameters of the model.
\<close>

record pylib =
  json_loads :: "pystr \<Rightarrow> exn + json"
  str_lower :: "pystr \<Rightarrow> pystr"
  valid_str :: "json \<Rightarrow> pystr option"
  valid_optional_str :: "json \<Rightarrow> pystr option option"
  valid_str_list :: "json \<Rightarrow> pystr list option"
  valid_bool :: "json \<Rightarrow> bool option"

subsection \<open>String operations\<close>

text \<open>The characters \<open>str.strip()\<close> removes: those for which \<open>str.isspace\<close> holds.\<close>

definition is_space :: "nat \<Rightarrow> bool" where
  "is_space c \<longleftrightarrow>
     c \<in> set [9, 10, 11, 12, 13, 28, 29, 30, 31, 32, 133, 160, 5760, 8192, 8193, 8194,
       8195, 8196, 8197, 8198, 8199, 8200, 8201, 8202, 8232, 8233, 8239, 8287, 12288]"

definition strip :: "pystr \<Rightarrow> pystr" where
  "strip s = rev (dropWhile is_space (rev (dropWhile is_space s)))"

definition startswith :: "pystr \<Rightarrow> pystr \<Rightarrow> bool" where
  "startswith s p \<longleftrightarrow> take (length p) s = p"

text \<open>\<open>s.split(sep)\<close> for a one-character separator, and \<open>sep.join(parts)\<close>.\<close>

fun split_on :: "nat \<Rightarrow> pystr \<Rightarrow> pystr list" where
  "split_on sep [] = [[]]"
| "split_on sep (c # cs) =
     (if c = sep then [] # split_on sep cs
      else (case split_on sep cs of
              [] \<Rightarrow> [[c]]
            | l # ls \<Rightarrow> (c # l) # ls))"

fun join :: "pystr \<Rightarrow> pystr list \<Rightarrow> pystr" where
  "join sep [] = []"
| "join sep [x] = x"
| "join sep (x # y # ys) = x @ sep @ join sep (y # ys)"

text \<open>\<open>a in b\<close> for two strings.\<close>

fun contains :: "pystr \<Rightarrow> pystr \<Rightarrow> bool" where
  "contains a [] = (a = [])"
| "contains a (c # cs) = (startswith (c # cs) a \<or> contains a cs)"

text \<open>\<open>xs[:n]\<close> and \<open>xs[-n:]\<close> for an integer \<open>n\<close> of either sign.\<close>

definition slice_to :: "int \<Rightarrow> 'a list \<Rightarrow> 'a list" where
  "slice_to n xs = (if 0 \<le> n then take (nat n) xs else take (length xs - nat (- n)) xs)"

definition last_n :: "nat \<Rightarrow> 'a list \<Rightarrow> 'a list" where
  "last_n n xs = drop (length xs - n) xs"

text \<open>
  Lines 120 to 124 (and again 223 to 227) of agent_service.py: strip the model's output
  and remove a surrounding code fence. Code point 96 is the backquote, 10 the newline.
\<close>

definition strip_code_fence :: "pystr \<Rightarrow> pystr" where
  "strip_code_fence raw =
     (let result = strip raw in
      if startswith result [96, 96, 96] then
        (let lines = split_on 10 result in
         strip (join [10]
           (if strip (last lines) = [96, 96, 96] then butlast (tl lines) else tl lines)))
      else result)"

section \<open>Schemas\<close>

datatype role = User | Assistant | System

record chat_message =
  role :: role
  content :: pystr
  timestamp :: nat

record chat_history =
  session_id :: pystr
  paper_id :: pystr
  messages :: "chat_message list"
  created_at :: nat

datatype intent_category =
  CONTRIBUTION | METHOD | EXPERIMENT | COMPARISON | MOTIVATION | IMPLEMENTATION | GENERAL

text \<open>\<open>IntentCategory(s)\<close>: the member with that value, \<open>None\<close> for \<open>ValueError\<close>.\<close>

definition IntentCategory :: "pystr \<Rightarrow> intent_category option" where
  "IntentCategory s =
     (if s = ascii ''contribution'' then Some CONTRIBUTION
      else if s = ascii ''method'' then Some METHOD
      else if s = ascii ''experiment'' then Some EXPERIMENT
      else if s = ascii ''comparison'' then Some COMPARISON
      else if s = ascii ''motivation'' then Some MOTIVATION
      else if s = ascii ''implementation'' then Some IMPLEMENTATION
      else if s = ascii ''general'' then Some GENERAL
      else None)"

record intent_analysis_result =
  category :: intent_category
  target_sections :: "pystr list"
  intent_keywords :: "pystr list"
  reasoning :: pystr

record completeness_evaluation =
  is_sufficient :: bool
  missing_info :: "pystr option"
  suggested_keywords :: "pystr list"
  eval_reasoning :: pystr

text \<open>
  A retrieval result: the dictionary the similarity search returns for one fragment.
  \<open>metadata\<close> is itself a dictionary, of which the code reads \<open>section_title\<close>.
\<close>

record search_result =
  chunk_id :: "pystr field"
  chunk_text :: "pystr field"
  metadata :: "pystr field field"
  score :: "rat field"


text \<open>
  One fragment of the context \<open>_format_context\<close> renders (its index, section label,
  score and text), and one entry of the "sources" payload. A section or text of \<open>None\<close>
  is Python's \<open>None\<close>.
\<close>

record context_part =
  part_index :: nat
  part_section :: "pystr option"
  part_score :: rat
  part_text :: "pystr option"

record source_entry =
  src_chunk_id :: "pystr option"
  src_section :: "pystr option"
  src_score :: "rat option"
  text_preview :: pystr

section \<open>External capabilities, events and the trace of an exchange\<close>

text \<open>
  A request to the text-generation capability. The prompt text the code renders is a
  function of the values listed here (question, section titles, history excerpt,
  formatted context, provider), so the capability receives these values in place of the
  rendered text; temperature and token limits are constants of the call site.
\<close>

datatype llm_request =
    IntentRequest pystr "json list" "(role \<times> pystr) list" "pystr option"
  | EvaluationRequest pystr "context_part list" "pystr option"
  | AnswerRequest "context_part list" pystr "(role \<times> pystr) list" "pystr option"

text \<open>
  The capabilities the agent consumes, over a state \<open>'w\<close> of the outside world that
  every call may read and change: \<open>uuid.uuid4\<close>, \<open>datetime.now\<close>,
  \<open>FileManager.load_parsed_content\<close>, \<open>llm_factory.chat\<close> without and with streaming
  (a stream is the finite list of its increments and the exception that ends it, if
  any), and the embedding of a query followed by \<open>milvus_service.search\<close>.
\<close>

record 'w capabilities =
  uuid4 :: "'w \<Rightarrow> pystr \<times> 'w"
  now :: "'w \<Rightarrow> nat \<times> 'w"
  load_parsed_content :: "pystr \<Rightarrow> 'w \<Rightarrow> (exn + json) \<times> 'w"
  llm_chat :: "llm_request \<Rightarrow> 'w \<Rightarrow> (exn + pystr) \<times> 'w"
  llm_chat_stream :: "llm_request \<Rightarrow> 'w \<Rightarrow> (exn + pystr list \<times> exn option) \<times> 'w"
  vector_search :: "pystr \<Rightarrow> int \<Rightarrow> pystr option \<Rightarrow> 'w \<Rightarrow> (exn + search_result list) \<times> 'w"

datatype ext_call =
    LoadParsedContent pystr
  | Chat llm_request
  | ChatStream llm_request
  | VectorSearch pystr int "pystr option"

datatype event_type = Thinking | Retrieval | Evaluation | Content | Sources | Done | Error

text \<open>
  The content of an event. The progress messages are kept as the values they are
  rendered from, one constructor per \<open>yield\<close> of \<open>chat_stream\<close>.
\<close>

datatype payload =
    AnalysingIntent
  | IntentRecognised intent_analysis_result
  | RoundStarted int "pystr list"
  | FragmentsFound nat
  | NothingFound
  | EvaluatingCompleteness
  | InfoSufficient pystr
  | InfoMissing "pystr option" "pystr list"
  | MaxRoundsReached "pystr option"
  | Chunk pystr
  | SourceList "source_entry list"
  | Flag bool
  | InvalidSession
  | Failure exn

datatype agent_stream_event = AgentStreamEvent (etype: event_type) (econtent: payload)

text \<open>What an exchange does, in order: the events it yields and the calls it makes.\<close>

datatype io = Yield agent_stream_event | Call ext_call

section \<open>IntentAnalyzer\<close>

text \<open>A field read with \<open>parsed.get(key, default)\<close> and then validated by pydantic.\<close>

fun validated :: "(json \<Rightarrow> 'a option) \<Rightarrow> 'a \<Rightarrow> json option \<Rightarrow> 'a option" where
  "validated check dflt None = Some dflt"
| "validated check dflt (Some v) = check v"

text \<open>Lines 129 to 140: the intent built from the parsed JSON value.\<close>

definition intent_of_parsed :: "pylib \<Rightarrow> json \<Rightarrow> exn + intent_analysis_result" where
  "intent_of_parsed lib parsed =
     (case parsed of
        JObj kvs \<Rightarrow>
          (case (case map_of kvs (ascii ''category'') of
                   None \<Rightarrow> Inr (str_lower lib (ascii ''general''))
                 | Some (JStr s) \<Rightarrow> Inr (str_lower lib s)
                 | Some _ \<Rightarrow> Inl AttributeError) of
             Inl e \<Rightarrow> Inl e
           | Inr category_str \<Rightarrow>
               (case (validated (valid_str_list lib) [] (map_of kvs (ascii ''target_sections'')),
                      validated (valid_str_list lib) [] (map_of kvs (ascii ''keywords'')),
                      validated (valid_str lib) [] (map_of kvs (ascii ''reasoning''))) of
                  (Some ts, Some ks, Some r) \<Rightarrow>
                    Inr \<lparr>category = (case IntentCategory category_str of
                                       Some c \<Rightarrow> c
                                     | None \<Rightarrow> GENERAL),
                         target_sections = ts, intent_keywords = ks, reasoning = r\<rparr>
                | _ \<Rightarrow> Inl ValidationError))
      | _ \<Rightarrow> Inl AttributeError)"

text \<open>
  Lines 87 to 108: the request of the classification, with the last 6 messages of the
  history, each cut to 200 characters and labelled as the user's or the assistant's.
\<close>

definition intent_request ::
  "pystr \<Rightarrow> json list \<Rightarrow> chat_message list \<Rightarrow> pystr option \<Rightarrow> llm_request" where
  "intent_request question section_titles conversation_history provider =
     IntentRequest question section_titles
       (map (\<lambda>msg. (if role msg = User then User else Assistant, take 200 (content msg)))
          (last_n 6 conversation_history))
       provider"

text \<open>
  \<open>IntentAnalyzer.analyze\<close>. The first handler (line 142) turns a \<open>JSONDecodeError\<close>
  into the default intent; the second (line 151) raises every other exception again, those
  of \<open>json.loads\<close> included. A \<open>JSONDecodeError\<close> raised by the capability itself
  reaches the first handler before \<open>result\<close> is bound, and the handler's log line then
  raises \<open>UnboundLocalError\<close>.
\<close>

definition analyze ::
  "'w capabilities \<Rightarrow> pylib \<Rightarrow> pystr \<Rightarrow> json list \<Rightarrow> chat_message list \<Rightarrow> pystr option \<Rightarrow> 'w
     \<Rightarrow> io list \<times> (exn + intent_analysis_result) \<times> 'w" where
  "analyze caps lib question section_titles conversation_history provider w =
     (let request = intent_request question section_titles conversation_history provider
      in case llm_chat caps request w of
           (Inl e, w1) \<Rightarrow>
             ([Call (Chat request)],
              Inl (if e = JSONDecodeError then UnboundLocalError else e), w1)
         | (Inr result, w1) \<Rightarrow>
             (case json_loads lib (strip_code_fence result) of
                Inl e \<Rightarrow>
                  ([Call (Chat request)],
                   (if e = JSONDecodeError then
                      Inr \<lparr>category = GENERAL, target_sections = [],
                           intent_keywords = [take 50 question],
                           reasoning = [35299, 26512, 22833, 36133, 65292, 20351, 29992,
                                        40664, 35748, 35774, 32622]\<rparr>
                    else Inl e),
                   w1)
              | Inr parsed \<Rightarrow> ([Call (Chat request)], intent_of_parsed lib parsed, w1)))"

section \<open>CompletenessEvaluator\<close>

text \<open>Lines 231 to 236: the verdict built from the parsed JSON value.\<close>

definition evaluation_of_parsed :: "pylib \<Rightarrow> json \<Rightarrow> exn + completeness_evaluation" where
  "evaluation_of_parsed lib parsed =
     (case parsed of
        JObj kvs \<Rightarrow>
          (case (validated (valid_bool lib) True (map_of kvs (ascii ''is_sufficient'')),
                 validated (valid_optional_str lib) None (map_of kvs (ascii ''missing_info'')),
                 validated (valid_str_list lib) [] (map_of kvs (ascii ''suggested_keywords'')),
                 validated (valid_str lib) [] (map_of kvs (ascii ''reasoning''))) of
             (Some s, Some m, Some ks, Some r) \<Rightarrow>
               Inr \<lparr>is_sufficient = s, missing_info = m, suggested_keywords = ks,
                    eval_reasoning = r\<rparr>
           | _ \<Rightarrow> Inl ValidationError)
      | _ \<Rightarrow> Inl AttributeError)"

definition parse_failure_evaluation :: completeness_evaluation where
  "parse_failure_evaluation =
     \<lparr>is_sufficient = True, missing_info = None, suggested_keywords = [],
      eval_reasoning = [35299, 26512, 22833, 36133, 65292, 40664, 35748, 20449, 24687,
                        20805, 36275]\<rparr>"

text \<open>
  \<open>CompletenessEvaluator.evaluate\<close>, with the same two handlers (lines 238 and 247). Its
  first handler does not read \<open>result\<close>, so a \<open>JSONDecodeError\<close> raised by the
  capability itself also ends in the default verdict.
  The request carries the whole context; the prompt renders its first 4000 characters.
\<close>

definition evaluate ::
  "'w capabilities \<Rightarrow> pylib \<Rightarrow> pystr \<Rightarrow> context_part list \<Rightarrow> pystr option \<Rightarrow> 'w
     \<Rightarrow> io list \<times> (exn + completeness_evaluation) \<times> 'w" where
  "evaluate caps lib question retrieved_content provider w =
     (let request = EvaluationRequest question retrieved_content provider
      in case llm_chat caps request w of
           (Inl e, w1) \<Rightarrow>
             ([Call (Chat request)],
              (if e = JSONDecodeError then Inr parse_failure_evaluation else Inl e), w1)
         | (Inr result, w1) \<Rightarrow>
             (case json_loads lib (strip_code_fence result) of
                Inl e \<Rightarrow>
                  ([Call (Chat request)],
                   (if e = JSONDecodeError then Inr parse_failure_evaluation else Inl e), w1)
              | Inr parsed \<Rightarrow> ([Call (Chat request)], evaluation_of_parsed lib parsed, w1)))"


section \<open>VectorizationService\<close>

text \<open>
  The section title of a result as the filter of \<open>search_similar_chunks\<close> reads it:
  \<open>result.get("metadata", {}).get("section_title", "").lower()\<close>.
\<close>

definition section_title_lower :: "pylib \<Rightarrow> search_result \<Rightarrow> exn + pystr" where
  "section_title_lower lib r =
     (case metadata r of
        Missing \<Rightarrow> Inr (str_lower lib [])
      | Null \<Rightarrow> Inl AttributeError
      | Val Missing \<Rightarrow> Inr (str_lower lib [])
      | Val Null \<Rightarrow> Inl AttributeError
      | Val (Val s) \<Rightarrow> Inr (str_lower lib s))"

text \<open>Lines 137 to 145: the first loop of the section filter, with its \<open>break\<close>.\<close>

fun filter_sections ::
  "pylib \<Rightarrow> pystr list \<Rightarrow> int \<Rightarrow> search_result list \<Rightarrow> search_result list
     \<Rightarrow> exn + search_result list" where
  "filter_sections lib section_filter_lower top_k [] filtered_results = Inr filtered_results"
| "filter_sections lib section_filter_lower top_k (r # rs) filtered_results =
     (case section_title_lower lib r of
        Inl e \<Rightarrow> Inl e
      | Inr section_title \<Rightarrow>
          (let filtered =
                 (if list_ex (\<lambda>filter_term. contains filter_term section_title
                                 \<or> contains section_title filter_term) section_filter_lower
                  then filtered_results @ [r] else filtered_results)
           in if top_k \<le> int (length filtered) then Inr filtered
              else filter_sections lib section_filter_lower top_k rs filtered))"

text \<open>Lines 149 to 153: the second loop, which refills from the unfiltered results.\<close>

fun refill :: "int \<Rightarrow> search_result list \<Rightarrow> search_result list \<Rightarrow> search_result list" where
  "refill top_k [] filtered_results = filtered_results"
| "refill top_k (r # rs) filtered_results =
     (if r \<notin> set filtered_results then
        (let filtered = filtered_results @ [r]
         in if top_k \<le> int (length filtered) then filtered else refill top_k rs filtered)
      else refill top_k rs filtered_results)"

definition search_similar_chunks ::
  "'w capabilities \<Rightarrow> pylib \<Rightarrow> pystr \<Rightarrow> pystr option \<Rightarrow> int \<Rightarrow> pystr list option \<Rightarrow> 'w
     \<Rightarrow> io list \<times> (exn + search_result list) \<times> 'w" where
  "search_similar_chunks caps lib query_text pid top_k section_filter w =
     (let filtering = (case section_filter of None \<Rightarrow> False | Some fs \<Rightarrow> fs \<noteq> []);
          search_top_k = (if filtering then top_k * 2 else top_k)
      in case vector_search caps query_text search_top_k pid w of
           (Inl e, w1) \<Rightarrow> ([Call (VectorSearch query_text search_top_k pid)], Inl e, w1)
         | (Inr results, w1) \<Rightarrow>
             ([Call (VectorSearch query_text search_top_k pid)],
              (if filtering \<and> results \<noteq> [] then
                 (case filter_sections lib
                         (map (str_lower lib) (case section_filter of None \<Rightarrow> [] | Some fs \<Rightarrow> fs))
                         top_k results [] of
                    Inl e \<Rightarrow> Inl e
                  | Inr filtered_results \<Rightarrow>
                      Inr (slice_to top_k
                             (if int (length filtered_results) < top_k
                              then refill top_k results filtered_results
                              else filtered_results)))
               else Inr (slice_to top_k results)),
              w1))"

text \<open>
  The body shared by both deduplication loops (lines 198 to 202 of
  vectorization_service.py, lines 307 to 311 of agent_service.py): one result, the set
  of chunk ids seen and the list kept so far.
\<close>

definition keep_unseen ::
  "pystr set \<times> search_result list \<Rightarrow> search_result \<Rightarrow> pystr set \<times> search_result list" where
  "keep_unseen acc result =
     (case acc of
        (seen_chunks, kept) \<Rightarrow>
          (case dict_get (chunk_id result) of
             None \<Rightarrow> (seen_chunks, kept)
           | Some cid \<Rightarrow>
               (if cid \<noteq> [] \<and> cid \<notin> seen_chunks
                then (insert cid seen_chunks, kept @ [result])
                else (seen_chunks, kept))))"

text \<open>
  \<open>all_results.sort(key=lambda x: x.get("score", 0), reverse=True)\<close>: a stable sort,
  descending. A key of \<open>None\<close> cannot be compared, which raises as soon as two elements
  are compared.
\<close>

definition score_key :: "search_result \<Rightarrow> rat" where
  "score_key r = (case score r of Val s \<Rightarrow> s | _ \<Rightarrow> 0)"

definition sort_by_score :: "search_result list \<Rightarrow> exn + search_result list" where
  "sort_by_score rs =
     (if 2 \<le> length rs \<and> list_ex (\<lambda>r. score r = Null) rs then Inl TypeError
      else Inr (sort_key (\<lambda>r. - score_key r) rs))"

fun search_each_keyword ::
  "'w capabilities \<Rightarrow> pylib \<Rightarrow> pystr list \<Rightarrow> pystr option \<Rightarrow> int \<Rightarrow> pystr list option
     \<Rightarrow> pystr set \<times> search_result list \<Rightarrow> 'w
     \<Rightarrow> io list \<times> (exn + search_result list) \<times> 'w" where
  "search_each_keyword caps lib [] pid top_k section_filter acc w = ([], Inr (snd acc), w)"
| "search_each_keyword caps lib (keyword # rest) pid top_k section_filter acc w =
     (case search_similar_chunks caps lib keyword pid top_k section_filter w of
        (tr, Inl e, w1) \<Rightarrow> (tr, Inl e, w1)
      | (tr, Inr results, w1) \<Rightarrow>
          (case search_each_keyword caps lib rest pid top_k section_filter
                  (foldl keep_unseen acc results) w1 of
             (tr', res, w2) \<Rightarrow> (tr @ tr', res, w2)))"

definition search_multi_keywords ::
  "'w capabilities \<Rightarrow> pylib \<Rightarrow> pystr list \<Rightarrow> pystr option \<Rightarrow> int \<Rightarrow> pystr list option \<Rightarrow> 'w
     \<Rightarrow> io list \<times> (exn + search_result list) \<times> 'w" where
  "search_multi_keywords caps lib kws pid top_k section_filter w =
     (case search_each_keyword caps lib kws pid top_k section_filter ({}, []) w of
        (tr, Inl e, w1) \<Rightarrow> (tr, Inl e, w1)
      | (tr, Inr all_found, w1) \<Rightarrow> (tr, sort_by_score all_found, w1))"


section \<open>AgentOrchestrator\<close>

record agent_orchestrator =
  max_retrieval_rounds :: int
  sessions :: "pystr \<rightharpoonup> chat_history"

definition create_session ::
  "'w capabilities \<Rightarrow> agent_orchestrator \<Rightarrow> pystr \<Rightarrow> 'w \<Rightarrow> pystr \<times> agent_orchestrator \<times> 'w" where
  "create_session caps self pid w =
     (case uuid4 caps w of
        (sid, w1) \<Rightarrow>
          (case now caps w1 of
             (t, w2) \<Rightarrow>
               (sid,
                self\<lparr>sessions := (sessions self)
                  (sid \<mapsto> \<lparr>session_id = sid, paper_id = pid, messages = [], created_at = t\<rparr>)\<rparr>,
                w2)))"

definition get_session :: "agent_orchestrator \<Rightarrow> pystr \<Rightarrow> chat_history option" where
  "get_session self sid = sessions self sid"

text \<open>\<open>_format_context\<close>: one part per result, numbered from 1.\<close>

definition format_part :: "nat \<Rightarrow> search_result \<Rightarrow> exn + context_part" where
  "format_part i result =
     (case chunk_text result of
        Missing \<Rightarrow> Inl KeyError
      | txt \<Rightarrow>
          (case metadata result of
             Missing \<Rightarrow> Inl KeyError
           | Null \<Rightarrow> Inl AttributeError
           | Val m \<Rightarrow>
               (case score result of
                  Missing \<Rightarrow> Inl KeyError
                | Null \<Rightarrow> Inl TypeError
                | Val s \<Rightarrow>
                    Inr \<lparr>part_index = i,
                         part_section = (case m of
                                           Missing \<Rightarrow> Some [26410, 30693, 31456, 33410]
                                         | Null \<Rightarrow> None
                                         | Val title \<Rightarrow> Some title),
                         part_score = s,
                         part_text = dict_get txt\<rparr>)))"

fun format_parts :: "nat \<Rightarrow> search_result list \<Rightarrow> exn + context_part list" where
  "format_parts i [] = Inr []"
| "format_parts i (result # rest) =
     (case format_part i result of
        Inl e \<Rightarrow> Inl e
      | Inr part \<Rightarrow>
          (case format_parts (Suc i) rest of
             Inl e \<Rightarrow> Inl e
           | Inr parts \<Rightarrow> Inr (part # parts)))"

definition format_context :: "search_result list \<Rightarrow> exn + context_part list" where
  "format_context search_results = format_parts 1 search_results"

text \<open>\<open>_deduplicate_results\<close>.\<close>

definition deduplicate_results :: "search_result list \<Rightarrow> search_result list" where
  "deduplicate_results all_found = snd (foldl keep_unseen ({}, []) all_found)"

text \<open>\<open>_get_section_titles\<close>: every exception ends in the empty list.\<close>

fun section_title :: "json \<Rightarrow> exn + json option" where
  "section_title (JObj kvs) =
     Inr (case map_of kvs (ascii ''title'') of
            None \<Rightarrow> None
          | Some t \<Rightarrow> if truthy t then Some t else None)"
| "section_title _ = Inl AttributeError"

fun collect_titles :: "json list \<Rightarrow> exn + json list" where
  "collect_titles [] = Inr []"
| "collect_titles (s # ss) =
     (case section_title s of
        Inl e \<Rightarrow> Inl e
      | Inr t \<Rightarrow>
          (case collect_titles ss of
             Inl e \<Rightarrow> Inl e
           | Inr ts \<Rightarrow> Inr (case t of None \<Rightarrow> ts | Some x \<Rightarrow> x # ts)))"

definition titles_of :: "json \<Rightarrow> json list" where
  "titles_of paper_data =
     (case paper_data of
        JObj kvs \<Rightarrow>
          (if kvs \<noteq> [] then
             (case map_of kvs (ascii ''sections'') of
                Some (JArr secs) \<Rightarrow>
                  (case collect_titles secs of Inl e \<Rightarrow> [] | Inr ts \<Rightarrow> ts)
              | _ \<Rightarrow> [])
           else [])
      | _ \<Rightarrow> [])"

definition get_section_titles ::
  "'w capabilities \<Rightarrow> pystr \<Rightarrow> 'w \<Rightarrow> io list \<times> json list \<times> 'w" where
  "get_section_titles caps pid w =
     (case load_parsed_content caps pid w of
        (Inl e, w1) \<Rightarrow> ([Call (LoadParsedContent pid)], [], w1)
      | (Inr paper_data, w1) \<Rightarrow> ([Call (LoadParsedContent pid)], titles_of paper_data, w1))"

subsection \<open>The retrieval loop of \<open>chat_stream\<close>\<close>

text \<open>Lines 394 to 400: one search per keyword, each result list appended.\<close>

fun search_keywords_loop ::
  "'w capabilities \<Rightarrow> pylib \<Rightarrow> pystr \<Rightarrow> int \<Rightarrow> pystr list \<Rightarrow> search_result list \<Rightarrow> 'w
     \<Rightarrow> io list \<times> (exn + search_result list) \<times> 'w" where
  "search_keywords_loop caps lib pid top_k [] all_found w = ([], Inr all_found, w)"
| "search_keywords_loop caps lib pid top_k (keyword # rest) all_found w =
     (case search_similar_chunks caps lib keyword (Some pid) top_k None w of
        (tr, Inl e, w1) \<Rightarrow> (tr, Inl e, w1)
      | (tr, Inr results, w1) \<Rightarrow>
          (case search_keywords_loop caps lib pid top_k rest (all_found @ results) w1 of
             (tr', res, w2) \<Rightarrow> (tr @ tr', res, w2)))"

text \<open>
  The variables of the \<open>while\<close> loop (\<open>sufficient\<close> is the local \<open>is_sufficient\<close>;
  \<open>evaluation_result\<close> is unbound until the first evaluation).
\<close>

record loop_vars =
  all_results :: "search_result list"
  current_round :: int
  sufficient :: bool
  evaluation_result :: "completeness_evaluation option"

text \<open>How one pass through the loop body ends: at the \<open>break\<close>, or after an evaluation.\<close>

datatype round_end =
    Break "search_result list"
  | Evaluated "search_result list" completeness_evaluation

text \<open>Lines 429 to 444: the event that reports the verdict of round \<open>rnd\<close>.\<close>

definition verdict_event :: "int \<Rightarrow> int \<Rightarrow> completeness_evaluation \<Rightarrow> io" where
  "verdict_event max_rounds rnd ev =
     Yield (AgentStreamEvent Evaluation
       (if is_sufficient ev then InfoSufficient (eval_reasoning ev)
        else if rnd < max_rounds then InfoMissing (missing_info ev) (suggested_keywords ev)
        else MaxRoundsReached (missing_info ev)))"

text \<open>
  Lines 381 to 444: the body of the loop in round \<open>rnd\<close> (the value of
  \<open>current_round\<close> after its increment).
\<close>

definition retrieval_round ::
  "'w capabilities \<Rightarrow> pylib \<Rightarrow> int \<Rightarrow> int \<Rightarrow> pystr \<Rightarrow> pystr \<Rightarrow> intent_analysis_result
     \<Rightarrow> pystr option \<Rightarrow> int \<Rightarrow> search_result list \<Rightarrow> completeness_evaluation option \<Rightarrow> 'w
     \<Rightarrow> io list \<times> (exn + round_end) \<times> 'w" where
  "retrieval_round caps lib top_k max_rounds pid question intent_result provider rnd found prev w =
     (case (if rnd = 1 then Inr (intent_keywords intent_result)
            else (case prev of
                    None \<Rightarrow> Inl UnboundLocalError
                  | Some ev \<Rightarrow>
                      Inr (if suggested_keywords ev \<noteq> [] then suggested_keywords ev
                           else [question]))) of
        Inl e \<Rightarrow> ([], Inl e, w)
      | Inr search_keywords \<Rightarrow>
          (case search_keywords_loop caps lib pid top_k (take 3 search_keywords) found w of
             (tr1, Inl e, w1) \<Rightarrow>
               (Yield (AgentStreamEvent Retrieval (RoundStarted rnd search_keywords)) # tr1,
                Inl e, w1)
           | (tr1, Inr extended, w1) \<Rightarrow>
               (let results = deduplicate_results extended;
                    tr2 = Yield (AgentStreamEvent Retrieval (RoundStarted rnd search_keywords))
                            # tr1
                            @ [Yield (AgentStreamEvent Retrieval (FragmentsFound (length results)))]
                in if results = [] then
                     (tr2 @ [Yield (AgentStreamEvent Evaluation NothingFound)],
                      Inr (Break results), w1)
                   else
                     (case format_context results of
                        Inl e \<Rightarrow>
                          (tr2 @ [Yield (AgentStreamEvent Thinking EvaluatingCompleteness)],
                           Inl e, w1)
                      | Inr ctx \<Rightarrow>
                          (case evaluate caps lib question ctx provider w1 of
                             (tr3, Inl e, w2) \<Rightarrow>
                               (tr2 @ Yield (AgentStreamEvent Thinking EvaluatingCompleteness)
                                  # tr3,
                                Inl e, w2)
                           | (tr3, Inr ev, w2) \<Rightarrow>
                               (tr2 @ Yield (AgentStreamEvent Thinking EvaluatingCompleteness)
                                  # tr3
                                  @ [verdict_event max_rounds rnd ev],
                                Inr (Evaluated results ev), w2))))))"

text \<open>The loop variables after a pass through the body that ended without exception.\<close>

fun after_round :: "loop_vars \<Rightarrow> round_end \<Rightarrow> loop_vars" where
  "after_round v (Break results) =
     v\<lparr>all_results := results, current_round := current_round v + 1\<rparr>"
| "after_round v (Evaluated results ev) =
     v\<lparr>all_results := results, current_round := current_round v + 1,
       sufficient := is_sufficient ev, evaluation_result := Some ev\<rparr>"

text \<open>Lines 378 to 444: the \<open>while\<close> loop.\<close>

function retrieval_loop ::
  "'w capabilities \<Rightarrow> pylib \<Rightarrow> int \<Rightarrow> int \<Rightarrow> pystr \<Rightarrow> pystr \<Rightarrow> intent_analysis_result
     \<Rightarrow> pystr option \<Rightarrow> loop_vars \<Rightarrow> 'w \<Rightarrow> io list \<times> (exn + loop_vars) \<times> 'w" where
  "retrieval_loop caps lib top_k max_rounds pid question intent_result provider v w =
     (if current_round v < max_rounds \<and> \<not> sufficient v then
        (case retrieval_round caps lib top_k max_rounds pid question intent_result provider
                (current_round v + 1) (all_results v) (evaluation_result v) w of
           (tr, Inl e, w1) \<Rightarrow> (tr, Inl e, w1)
         | (tr, Inr (Break results), w1) \<Rightarrow> (tr, Inr (after_round v (Break results)), w1)
         | (tr, Inr (Evaluated results ev), w1) \<Rightarrow>
             (case retrieval_loop caps lib top_k max_rounds pid question intent_result provider
                     (after_round v (Evaluated results ev)) w1 of
                (tr', res, w2) \<Rightarrow> (tr @ tr', res, w2)))
      else ([], Inr v, w))"
  by pat_completeness auto
termination
  by (relation "measure (\<lambda>(caps, lib, top_k, max_rounds, pid, question, intent_result, provider, v, w).
        nat (max_rounds - current_round v))") auto

declare retrieval_loop.simps [simp del]

text \<open>The loop variables at line 374 to 376, before the first round.\<close>

definition initial_vars :: loop_vars where
  "initial_vars =
     \<lparr>all_results = [], current_round = 0, sufficient = False, evaluation_result = None\<rparr>"

text \<open>
  One iteration of the loop as a step between its states (the loop variables and the
  outside world): defined where the loop condition holds and the body ends without
  exception.
\<close>

definition next_round ::
  "'w capabilities \<Rightarrow> pylib \<Rightarrow> int \<Rightarrow> int \<Rightarrow> pystr \<Rightarrow> pystr \<Rightarrow> intent_analysis_result
     \<Rightarrow> pystr option \<Rightarrow> loop_vars \<times> 'w \<Rightarrow> (loop_vars \<times> 'w) option" where
  "next_round caps lib top_k max_rounds pid question intent_result provider s =
     (case s of
        (v, w) \<Rightarrow>
          (if current_round v < max_rounds \<and> \<not> sufficient v then
             (case retrieval_round caps lib top_k max_rounds pid question intent_result provider
                     (current_round v + 1) (all_results v) (evaluation_result v) w of
                (tr, Inl e, w1) \<Rightarrow> None
              | (tr, Inr ended, w1) \<Rightarrow> Some (after_round v ended, w1))
           else None))"

subsection \<open>Answer, sources and history\<close>

text \<open>The fixed answer of line 448, by code points.\<close>

definition not_found_answer :: pystr where
  "not_found_answer =
     [25265, 27465, 65292, 25105, 22312, 35770, 25991, 20013, 27809, 26377, 25214, 21040,
      19982, 24744, 38382, 39064, 30456, 20851, 30340, 20869, 23481, 12290, 24744, 21487,
      20197, 23581, 35797, 25442, 19968, 20010, 38382, 27861, 25110, 38382, 20854, 20182,
      38382, 39064, 12290]"

text \<open>
  Lines 447 to 481: the answer. With evidence, the streamed increments are yielded one by
  one and joined; an exception that ends the stream comes after the increments already
  yielded.
\<close>

definition generate_answer ::
  "'w capabilities \<Rightarrow> chat_history \<Rightarrow> pystr \<Rightarrow> pystr option \<Rightarrow> search_result list \<Rightarrow> 'w
     \<Rightarrow> io list \<times> (exn + pystr) \<times> 'w" where
  "generate_answer caps session question provider found w =
     (if found = [] then
        ([Yield (AgentStreamEvent Content (Chunk not_found_answer))], Inr not_found_answer, w)
      else
        (case format_context found of
           Inl e \<Rightarrow> ([], Inl e, w)
         | Inr ctx \<Rightarrow>
             (let request = AnswerRequest ctx question
                    (map (\<lambda>msg. (role msg, content msg)) (last_n 6 (messages session)))
                    provider
              in case llm_chat_stream caps request w of
                   (Inl e, w1) \<Rightarrow> ([Call (ChatStream request)], Inl e, w1)
                 | (Inr (response_chunks, failure), w1) \<Rightarrow>
                     (Call (ChatStream request)
                        # map (\<lambda>chunk. Yield (AgentStreamEvent Content (Chunk chunk)))
                            response_chunks,
                      (case failure of
                         None \<Rightarrow> Inr (concat response_chunks)
                       | Some e \<Rightarrow> Inl e),
                      w1))))"

text \<open>Lines 486 to 491: one entry of the "sources" payload.\<close>

definition source_of :: "search_result \<Rightarrow> exn + source_entry" where
  "source_of r =
     (case metadata r of
        Null \<Rightarrow> Inl AttributeError
      | m \<Rightarrow>
          (case chunk_text r of
             Null \<Rightarrow> Inl TypeError
           | txt \<Rightarrow>
               Inr \<lparr>src_chunk_id = dict_get (chunk_id r),
                    src_section = (case m of
                                     Val Null \<Rightarrow> None
                                   | Val (Val title) \<Rightarrow> Some title
                                   | _ \<Rightarrow> Some []),
                    src_score = (case score r of
                                   Missing \<Rightarrow> Some 0
                                 | Null \<Rightarrow> None
                                 | Val s \<Rightarrow> Some s),
                    text_preview = take 100 (case txt of Val t \<Rightarrow> t | _ \<Rightarrow> [])
                                     @ ascii ''...''\<rparr>))"

fun source_entries :: "search_result list \<Rightarrow> exn + source_entry list" where
  "source_entries [] = Inr []"
| "source_entries (r # rs) =
     (case source_of r of
        Inl e \<Rightarrow> Inl e
      | Inr entry \<Rightarrow>
          (case source_entries rs of
             Inl e \<Rightarrow> Inl e
           | Inr entries \<Rightarrow> Inr (entry # entries)))"

text \<open>
  Lines 494 to 502: both messages are appended to the session's history, which is then
  cut to its last 20 messages.
\<close>

definition save_history ::
  "'w capabilities \<Rightarrow> agent_orchestrator \<Rightarrow> pystr \<Rightarrow> chat_history \<Rightarrow> pystr \<Rightarrow> pystr \<Rightarrow> 'w
     \<Rightarrow> agent_orchestrator \<times> 'w" where
  "save_history caps self sid session question answer w =
     (case now caps w of
        (t1, w1) \<Rightarrow>
          (case now caps w1 of
             (t2, w2) \<Rightarrow>
               (let appended = messages session
                      @ [\<lparr>role = User, content = question, timestamp = t1\<rparr>,
                         \<lparr>role = Assistant, content = answer, timestamp = t2\<rparr>]
                in (self\<lparr>sessions := (sessions self)
                      (sid \<mapsto> session\<lparr>messages :=
                         (if 20 < length appended then last_n 20 appended else appended)\<rparr>)\<rparr>,
                    w2))))"

subsection \<open>\<open>chat_stream\<close>\<close>

text \<open>
  Lines 355 to 504: the body of the \<open>try\<close> statement. It returns the events and calls
  up to the point it ends at, the exception if one ended it, the orchestrator and the
  outside world.
\<close>

definition try_body ::
  "'w capabilities \<Rightarrow> pylib \<Rightarrow> int \<Rightarrow> agent_orchestrator \<Rightarrow> pystr \<Rightarrow> chat_history \<Rightarrow> pystr
     \<Rightarrow> pystr \<Rightarrow> pystr option \<Rightarrow> 'w \<Rightarrow> io list \<times> (exn + unit) \<times> agent_orchestrator \<times> 'w" where
  "try_body caps lib top_k self sid session pid question provider w =
     (case get_section_titles caps pid w of
        (tr_t, section_titles, w1) \<Rightarrow>
          (case analyze caps lib question section_titles (messages session) provider w1 of
             (tr_a, Inl e, w2) \<Rightarrow>
               (Yield (AgentStreamEvent Thinking AnalysingIntent) # tr_t @ tr_a, Inl e, self, w2)
           | (tr_a, Inr intent_result, w2) \<Rightarrow>
               (let tr1 = Yield (AgentStreamEvent Thinking AnalysingIntent) # tr_t @ tr_a
                            @ [Yield (AgentStreamEvent Thinking (IntentRecognised intent_result))]
                in case retrieval_loop caps lib top_k (max_retrieval_rounds self) pid question
                          intent_result provider
                          initial_vars w2 of
                     (tr_l, Inl e, w3) \<Rightarrow> (tr1 @ tr_l, Inl e, self, w3)
                   | (tr_l, Inr v, w3) \<Rightarrow>
                       (case generate_answer caps session question provider (all_results v) w3 of
                          (tr_s, Inl e, w4) \<Rightarrow> (tr1 @ tr_l @ tr_s, Inl e, self, w4)
                        | (tr_s, Inr answer, w4) \<Rightarrow>
                            (case source_entries (take 5 (all_results v)) of
                               Inl e \<Rightarrow> (tr1 @ tr_l @ tr_s, Inl e, self, w4)
                             | Inr entries \<Rightarrow>
                                 (case save_history caps self sid session question answer w4 of
                                    (self', w5) \<Rightarrow>
                                      (tr1 @ tr_l @ tr_s
                                         @ [Yield (AgentStreamEvent Sources (SourceList entries)),
                                            Yield (AgentStreamEvent Done (Flag True))],
                                       Inr (), self', w5)))))))"

text \<open>Lines 346 and 347: an absent or empty \<open>session_id\<close> creates a session.\<close>

definition resolve_session ::
  "'w capabilities \<Rightarrow> agent_orchestrator \<Rightarrow> pystr \<Rightarrow> pystr option \<Rightarrow> 'w
     \<Rightarrow> pystr \<times> agent_orchestrator \<times> 'w" where
  "resolve_session caps self pid sid_opt w =
     (case sid_opt of
        None \<Rightarrow> create_session caps self pid w
      | Some s \<Rightarrow> if s = [] then create_session caps self pid w else (s, self, w))"

text \<open>
  \<open>AgentOrchestrator.chat_stream\<close>, consumed to its end: the events it yields
  interleaved with the calls it makes, the orchestrator and the outside world afterwards.
\<close>

definition chat_stream ::
  "'w capabilities \<Rightarrow> pylib \<Rightarrow> int \<Rightarrow> agent_orchestrator \<Rightarrow> pystr \<Rightarrow> pystr \<Rightarrow> pystr option
     \<Rightarrow> pystr option \<Rightarrow> 'w \<Rightarrow> io list \<times> agent_orchestrator \<times> 'w" where
  "chat_stream caps lib top_k self pid question sid_opt provider w =
     (case resolve_session caps self pid sid_opt w of
        (sid, self1, w1) \<Rightarrow>
          (case get_session self1 sid of
             None \<Rightarrow> ([Yield (AgentStreamEvent Error InvalidSession)], self1, w1)
           | Some session \<Rightarrow>
               (if paper_id session \<noteq> pid
                then ([Yield (AgentStreamEvent Error InvalidSession)], self1, w1)
                else
                  (case try_body caps lib top_k self1 sid session pid question provider w1 of
                     (tr, Inl e, self2, w2) \<Rightarrow>
                       (tr @ [Yield (AgentStreamEvent Error (Failure e))], self2, w2)
                   | (tr, Inr u, self2, w2) \<Rightarrow> (tr, self2, w2)))))"

section \<open>Reading a trace\<close>

fun yielded :: "io list \<Rightarrow> agent_stream_event list" where
  "yielded [] = []"
| "yielded (Yield e # tr) = e # yielded tr"
| "yielded (Call c # tr) = yielded tr"

fun calls :: "io list \<Rightarrow> ext_call list" where
  "calls [] = []"
| "calls (Yield e # tr) = calls tr"
| "calls (Call c # tr) = c # calls tr"

definition is_terminal :: "agent_stream_event \<Rightarrow> bool" where
  "is_terminal e \<longleftrightarrow> etype e = Done \<or> etype e = Error"

text \<open>The texts of the "content" events, in the order they were yielded.\<close>

fun content_text :: "agent_stream_event \<Rightarrow> pystr list" where
  "content_text (AgentStreamEvent Content (Chunk c)) = [c]"
| "content_text e = []"

definition content_texts :: "io list \<Rightarrow> pystr list" where
  "content_texts tr = concat (map content_text (yielded tr))"

fun is_search :: "io \<Rightarrow> bool" where
  "is_search (Call (VectorSearch q k p)) = True"
| "is_search x = False"

fun is_evaluation_call :: "io \<Rightarrow> bool" where
  "is_evaluation_call (Call (Chat (EvaluationRequest q c p))) = True"
| "is_evaluation_call x = False"

fun is_stream_call :: "io \<Rightarrow> bool" where
  "is_stream_call (Call (ChatStream r)) = True"
| "is_stream_call x = False"

fun is_round_start :: "io \<Rightarrow> bool" where
  "is_round_start (Yield (AgentStreamEvent Retrieval (RoundStarted n ks))) = True"
| "is_round_start x = False"

fun is_sufficient_verdict :: "io \<Rightarrow> bool" where
  "is_sufficient_verdict (Yield (AgentStreamEvent Evaluation (InfoSufficient r))) = True"
| "is_sufficient_verdict x = False"

text \<open>
  The number of searches of each round of a trace: for every "round started" event, the
  vector searches between it and the next such event.
\<close>

fun searches_until_next_round :: "io list \<Rightarrow> nat" where
  "searches_until_next_round [] = 0"
| "searches_until_next_round (x # xs) =
     (if is_round_start x then 0
      else (if is_search x then 1 else 0) + searches_until_next_round xs)"

fun searches_by_round :: "io list \<Rightarrow> nat list" where
  "searches_by_round [] = []"
| "searches_by_round (x # xs) =
     (if is_round_start x then searches_until_next_round xs # searches_by_round xs
      else searches_by_round xs)"

text \<open>What follows the first sufficient verdict in a trace.\<close>

definition after_sufficient :: "io list \<Rightarrow> io list" where
  "after_sufficient tr = drop 1 (dropWhile (\<lambda>x. \<not> is_sufficient_verdict x) tr)"

text \<open>What the retrieval loop may yield or call.\<close>

fun loop_io :: "io \<Rightarrow> bool" where
  "loop_io (Yield e) = (etype e = Thinking \<or> etype e = Retrieval \<or> etype e = Evaluation)"
| "loop_io (Call (VectorSearch q k p)) = True"
| "loop_io (Call (Chat (EvaluationRequest q c p))) = True"
| "loop_io x = False"

text \<open>The contexts of the evaluation requests of a trace, in the order of the calls.\<close>

fun evaluation_context :: "io \<Rightarrow> context_part list list" where
  "evaluation_context (Call (Chat (EvaluationRequest q ctx p))) = [ctx]"
| "evaluation_context x = []"

definition evaluation_contexts :: "io list \<Rightarrow> context_part list list" where
  "evaluation_contexts tr = concat (map evaluation_context tr)"

text \<open>The evidence a pass through the loop body leaves in \<open>all_results\<close>.\<close>

fun round_results :: "round_end \<Rightarrow> search_result list" where
  "round_results (Break results) = results"
| "round_results (Evaluated results ev) = results"

section \<open>Retrieval and deduplication, specified\<close>

text \<open>
  What searching several keywords one after the other returns: the result list of each
  keyword, in the order of the keywords, every search made in the world the one before
  left; the list ends at the first search that raises.
\<close>

fun keyword_results ::
  "'w capabilities \<Rightarrow> pylib \<Rightarrow> pystr list \<Rightarrow> pystr option \<Rightarrow> int \<Rightarrow> pystr list option \<Rightarrow> 'w
     \<Rightarrow> search_result list list" where
  "keyword_results caps lib [] pid top_k section_filter w = []"
| "keyword_results caps lib (keyword # rest) pid top_k section_filter w =
     (case search_similar_chunks caps lib keyword pid top_k section_filter w of
        (tr, Inl e, w1) \<Rightarrow> []
      | (tr, Inr results, w1) \<Rightarrow>
          results # keyword_results caps lib rest pid top_k section_filter w1)"

text \<open>
  The results a deduplication loop keeps from a list, given the chunk ids already seen:
  those with a non-empty chunk id that neither was seen before nor occurs earlier in the
  list.
\<close>

fun fresh :: "pystr set \<Rightarrow> search_result list \<Rightarrow> search_result list" where
  "fresh seen [] = []"
| "fresh seen (r # rs) =
     (case dict_get (chunk_id r) of
        None \<Rightarrow> fresh seen rs
      | Some c \<Rightarrow>
          if c \<noteq> [] \<and> c \<notin> seen then r # fresh (insert c seen) rs else fresh seen rs)"

definition ids_of :: "search_result list \<Rightarrow> pystr set" where
  "ids_of rs = {c. \<exists>r\<in>set rs. chunk_id r = Val c}"


section \<open>The library functions of CPython and pydantic\<close>

text \<open>
  The functions below follow the library code that stands behind the parameters of
  \<open>pylib\<close> in a run of the program: the scanner of CPython's \<open>json\<close> module, version
  3.11 (\<open>json.decoder\<close> and \<open>Modules/_json.c\<close>), and the validation of pydantic in its
  default, lax mode. The theorems about the agent hold for every value of the
  parameters; the examples run the agent with these functions.
\<close>

subsection \<open>\<open>json.loads\<close>\<close>

text \<open>The whitespace of JSON: space, tab, line feed and carriage return.\<close>

definition is_json_space :: "nat \<Rightarrow> bool" where
  "is_json_space c \<longleftrightarrow> c = 32 \<or> c = 9 \<or> c = 10 \<or> c = 13"

definition skip_whitespace :: "pystr \<Rightarrow> pystr" where
  "skip_whitespace s = dropWhile is_json_space s"

text \<open>
  \<open>scanstring\<close>: the text after an opening quote, up to the closing quote. It gives the
  decoded string and the rest of the text, or \<open>None\<close> for an unterminated string, a
  control character or an invalid escape. \<open>\\uXXXX\<close> escapes of a high and a low
  surrogate following each other are joined into one code point.
\<close>

definition hex_digit :: "nat \<Rightarrow> nat option" where
  "hex_digit c =
     (if 48 \<le> c \<and> c \<le> 57 then Some (c - 48)
      else if 97 \<le> c \<and> c \<le> 102 then Some (c - 87)
      else if 65 \<le> c \<and> c \<le> 70 then Some (c - 55)
      else None)"

fun hex4 :: "pystr \<Rightarrow> nat option" where
  "hex4 (a # b # c # d # rest) =
     (case (hex_digit a, hex_digit b, hex_digit c, hex_digit d) of
        (Some x, Some y, Some z, Some u) \<Rightarrow> Some (((x * 16 + y) * 16 + z) * 16 + u)
      | _ \<Rightarrow> None)"
| "hex4 _ = None"

definition unescape :: "nat \<Rightarrow> nat option" where
  "unescape c =
     (if c = 34 \<or> c = 92 \<or> c = 47 then Some c
      else if c = 98 then Some 8
      else if c = 102 then Some 12
      else if c = 110 then Some 10
      else if c = 114 then Some 13
      else if c = 116 then Some 9
      else None)"

definition prepend :: "nat \<Rightarrow> (pystr \<times> pystr) option \<Rightarrow> (pystr \<times> pystr) option" where
  "prepend c res = (case res of None \<Rightarrow> None | Some (t, rest) \<Rightarrow> Some (c # t, rest))"

fun scanstring :: "pystr \<Rightarrow> (pystr \<times> pystr) option" where
  "scanstring [] = None"
| "scanstring (c # cs) =
     (if c = 34 then Some ([], cs)
      else if c = 92 then
        (case cs of
           [] \<Rightarrow> None
         | e # r \<Rightarrow>
             if e = 117 then
               (case hex4 r of
                  None \<Rightarrow> None
                | Some u \<Rightarrow>
                    if 55296 \<le> u \<and> u \<le> 56319 \<and> take 2 (drop 4 r) = [92, 117] then
                      (case hex4 (drop 6 r) of
                         None \<Rightarrow> None
                       | Some u2 \<Rightarrow>
                           if 56320 \<le> u2 \<and> u2 \<le> 57343
                           then prepend (65536 + (u - 55296) * 1024 + (u2 - 56320))
                                  (scanstring (drop 10 r))
                           else prepend u (scanstring (drop 4 r)))
                    else prepend u (scanstring (drop 4 r)))
             else
               (case unescape e of
                  None \<Rightarrow> None
                | Some x \<Rightarrow> prepend x (scanstring r)))
      else if c < 32 then None
      else prepend c (scanstring cs))"

text \<open>
  A float literal denotes the double nearest to its decimal value, ties to the even
  mantissa; a value beyond the largest double is an infinity, and one below the smallest
  is zero.
\<close>

definition is_digit :: "nat \<Rightarrow> bool" where
  "is_digit c \<longleftrightarrow> 48 \<le> c \<and> c \<le> 57"

definition digits_value :: "pystr \<Rightarrow> int" where
  "digits_value ds = foldl (\<lambda>v c. 10 * v + (int c - 48)) 0 ds"

function bit_length :: "int \<Rightarrow> int" where
  "bit_length n = (if n \<le> 0 then 0 else 1 + bit_length (n div 2))"
  by pat_completeness auto
termination
  by (relation "measure nat") auto

definition pow2 :: "int \<Rightarrow> rat" where
  "pow2 e = (if 0 \<le> e then 2 ^ nat e else 1 / 2 ^ nat (- e))"

definition round_half_even :: "rat \<Rightarrow> int" where
  "round_half_even x =
     (let f = \<lfloor>x\<rfloor>; d = x - of_int f
      in if d < 1 / 2 then f else if 1 / 2 < d then f + 1 else if even f then f else f + 1)"

definition double_of :: "rat \<Rightarrow> json" where
  "double_of r =
     (if r = 0 then JNum 0
      else
        (let a = \<bar>r\<bar>;
             e0 = bit_length (fst (quotient_of a)) - bit_length (snd (quotient_of a));
             e = (if pow2 e0 \<le> a then e0 else e0 - 1);
             q = max (e - 52) (- 1074);
             v = of_int (round_half_even (a / pow2 q)) * pow2 q
         in if pow2 1024 \<le> v then (if r < 0 then JNegInfinity else JInfinity)
            else JNum (if r < 0 then - v else v)))"

text \<open>
  A number: an optional minus sign, the integer part (\<open>0\<close>, or digits not starting with
  \<open>0\<close>), an optional fraction and an optional exponent. Without fraction and exponent it
  is an \<open>int\<close>, whose conversion raises \<open>ValueError\<close> beyond 4300 digits.
\<close>

definition match_number :: "pystr \<Rightarrow> exn + json \<times> pystr" where
  "match_number s =
     (let negative = (take 1 s = [45]);
          s1 = (if negative then drop 1 s else s);
          int_digits = (if take 1 s1 = [48] then [48]
                        else if s1 \<noteq> [] \<and> is_digit (hd s1) then takeWhile is_digit s1
                        else []);
          s2 = drop (length int_digits) s1;
          frac_digits = (if take 1 s2 = [46] then takeWhile is_digit (drop 1 s2) else []);
          s3 = (if frac_digits = [] then s2 else drop (1 + length frac_digits) s2);
          signed = (take 1 s3 = [101] \<or> take 1 s3 = [69])
                     \<and> (take 1 (drop 1 s3) = [43] \<or> take 1 (drop 1 s3) = [45]);
          exp_digits = (if take 1 s3 = [101] \<or> take 1 s3 = [69]
                        then takeWhile is_digit (drop (if signed then 2 else 1) s3) else []);
          s4 = (if exp_digits = [] then s3
                else drop ((if signed then 2 else 1) + length exp_digits) s3);
          mantissa = of_int (digits_value (int_digits @ frac_digits))
                       / 10 ^ length frac_digits;
          exponent = (if signed \<and> take 1 (drop 1 s3) = [45]
                      then 1 / 10 ^ nat (digits_value exp_digits)
                      else 10 ^ nat (digits_value exp_digits))
      in if int_digits = [] then Inl JSONDecodeError
         else if frac_digits = [] \<and> exp_digits = [] then
           (if 4300 < length int_digits then Inl ValueError
            else Inr (JNum (if negative then - of_int (digits_value int_digits)
                            else of_int (digits_value int_digits)), s2))
         else Inr (double_of ((if negative then - 1 else 1) * mantissa * exponent), s4))"

text \<open>A JSON value that is neither an array nor an object.\<close>

definition scan_scalar :: "pystr \<Rightarrow> exn + json \<times> pystr" where
  "scan_scalar s =
     (if take 1 s = [34] then
        (case scanstring (drop 1 s) of
           None \<Rightarrow> Inl JSONDecodeError
         | Some (t, rest) \<Rightarrow> Inr (JStr t, rest))
      else if startswith s (ascii ''null'') then Inr (JNull, drop 4 s)
      else if startswith s (ascii ''true'') then Inr (JBool True, drop 4 s)
      else if startswith s (ascii ''false'') then Inr (JBool False, drop 5 s)
      else if startswith s (ascii ''NaN'') then Inr (JNaN, drop 3 s)
      else if startswith s (ascii ''Infinity'') then Inr (JInfinity, drop 8 s)
      else if startswith s (ascii ''-Infinity'') then Inr (JNegInfinity, drop 9 s)
      else match_number s)"

text \<open>\<open>d[k] = v\<close>: a key already present keeps its place and takes the new value.\<close>

fun dict_set :: "pystr \<Rightarrow> json \<Rightarrow> (pystr \<times> json) list \<Rightarrow> (pystr \<times> json) list" where
  "dict_set k v [] = [(k, v)]"
| "dict_set k v ((k', v') # kvs) =
     (if k' = k then (k, v) # kvs else (k', v') # dict_set k v kvs)"

text \<open>
  The elements of an array and the members of an object, from the first of them on;
  \<open>scan\<close> reads one value. The comparison of lengths before each further element holds
  whenever \<open>scan\<close> has consumed the text of the value it returned.
\<close>

function parse_array_items ::
  "(pystr \<Rightarrow> exn + json \<times> pystr) \<Rightarrow> pystr \<Rightarrow> json list \<Rightarrow> exn + json \<times> pystr" where
  "parse_array_items scan s acc =
     (case scan s of
        Inl e \<Rightarrow> Inl e
      | Inr (v, r) \<Rightarrow>
          (case skip_whitespace r of
             [] \<Rightarrow> Inl JSONDecodeError
           | c # r1 \<Rightarrow>
               if c = 93 then Inr (JArr (acc @ [v]), r1)
               else if c = 44 \<and> length r1 < length s
               then parse_array_items scan (skip_whitespace r1) (acc @ [v])
               else Inl JSONDecodeError))"
  by pat_completeness auto
termination
  by (relation "measure (\<lambda>(scan, s, acc). length s)")
     (auto simp: skip_whitespace_def intro: le_less_trans [OF length_dropWhile_le])

function parse_object_items ::
  "(pystr \<Rightarrow> exn + json \<times> pystr) \<Rightarrow> pystr \<Rightarrow> (pystr \<times> json) list \<Rightarrow> exn + json \<times> pystr" where
  "parse_object_items scan s acc =
     (if take 1 s = [34] then
        (case scanstring (drop 1 s) of
           None \<Rightarrow> Inl JSONDecodeError
         | Some (key, r) \<Rightarrow>
             if take 1 (skip_whitespace r) = [58] then
               (case scan (skip_whitespace (drop 1 (skip_whitespace r))) of
                  Inl e \<Rightarrow> Inl e
                | Inr (v, r1) \<Rightarrow>
                    (case skip_whitespace r1 of
                       [] \<Rightarrow> Inl JSONDecodeError
                     | c # r2 \<Rightarrow>
                         if c = 125 then Inr (JObj (dict_set key v acc), r2)
                         else if c = 44 \<and> length r2 < length s
                         then parse_object_items scan (skip_whitespace r2) (dict_set key v acc)
                         else Inl JSONDecodeError))
             else Inl JSONDecodeError)
      else Inl JSONDecodeError)"
  by pat_completeness auto
termination
  by (relation "measure (\<lambda>(scan, s, acc). length s)")
     (auto simp: skip_whitespace_def intro: le_less_trans [OF length_dropWhile_le])

text \<open>
  \<open>scan_once\<close>. Every array and every object enters one recursive call of the scanner,
  which raises \<open>RecursionError\<close> once the recursion limit of the interpreter is reached:
  \<open>depth\<close> is the number of nested arrays and objects the limit still admits at the
  call of \<open>json.loads\<close>.
\<close>

declare parse_array_items.simps [simp del] parse_object_items.simps [simp del]

primrec scan_once :: "nat \<Rightarrow> pystr \<Rightarrow> exn + json \<times> pystr" where
  "scan_once 0 s =
     (if take 1 s = [123] \<or> take 1 s = [91] then Inl RecursionError else scan_scalar s)"
| "scan_once (Suc depth) s =
     (if take 1 s = [123] then
        (if take 1 (skip_whitespace (drop 1 s)) = [125]
         then Inr (JObj [], drop 1 (skip_whitespace (drop 1 s)))
         else parse_object_items (scan_once depth) (skip_whitespace (drop 1 s)) [])
      else if take 1 s = [91] then
        (if take 1 (skip_whitespace (drop 1 s)) = [93]
         then Inr (JArr [], drop 1 (skip_whitespace (drop 1 s)))
         else parse_array_items (scan_once depth) (skip_whitespace (drop 1 s)) [])
      else scan_scalar s)"

text \<open>
  \<open>json.loads\<close> of a \<open>str\<close>: no byte order mark, one value between optional
  whitespace, and nothing after it.
\<close>

definition loads :: "nat \<Rightarrow> pystr \<Rightarrow> exn + json" where
  "loads depth s =
     (if take 1 s = [65279] then Inl JSONDecodeError
      else
        (case scan_once depth (skip_whitespace s) of
           Inl e \<Rightarrow> Inl e
         | Inr (v, rest) \<Rightarrow> if skip_whitespace rest = [] then Inr v else Inl JSONDecodeError))"

subsection \<open>\<open>str.lower\<close> and the validation of pydantic\<close>

text \<open>\<open>str.lower\<close> on text whose cased letters are those of ASCII.\<close>

definition ascii_lower :: "pystr \<Rightarrow> pystr" where
  "ascii_lower s = map (\<lambda>c. if 65 \<le> c \<and> c \<le> 90 then c + 32 else c) s"

text \<open>
  Lax validation of a decoded JSON value: a \<open>str\<close> field takes a string only, a
  \<open>List[str]\<close> field a list of strings; a \<open>bool\<close> field takes a boolean, the numbers
  0 and 1, and the strings that spell a truth value, in either case of the letters.
\<close>

definition pydantic_str :: "json \<Rightarrow> pystr option" where
  "pydantic_str j = (case j of JStr s \<Rightarrow> Some s | _ \<Rightarrow> None)"

definition pydantic_optional_str :: "json \<Rightarrow> pystr option option" where
  "pydantic_optional_str j =
     (case j of JNull \<Rightarrow> Some None | JStr s \<Rightarrow> Some (Some s) | _ \<Rightarrow> None)"

fun pydantic_str_items :: "json list \<Rightarrow> pystr list option" where
  "pydantic_str_items [] = Some []"
| "pydantic_str_items (JStr s # js) =
     (case pydantic_str_items js of None \<Rightarrow> None | Some ss \<Rightarrow> Some (s # ss))"
| "pydantic_str_items (j # js) = None"

definition pydantic_str_list :: "json \<Rightarrow> pystr list option" where
  "pydantic_str_list j = (case j of JArr js \<Rightarrow> pydantic_str_items js | _ \<Rightarrow> None)"

definition pydantic_bool :: "json \<Rightarrow> bool option" where
  "pydantic_bool j =
     (case j of
        JBool b \<Rightarrow> Some b
      | JNum n \<Rightarrow> if n = 0 then Some False else if n = 1 then Some True else None
      | JStr s \<Rightarrow>
          if ascii_lower s \<in> set (map ascii [''1'', ''on'', ''t'', ''true'', ''y'', ''yes''])
          then Some True
          else if ascii_lower s
                    \<in> set (map ascii [''0'', ''off'', ''f'', ''false'', ''n'', ''no''])
          then Some False
          else None
      | _ \<Rightarrow> None)"

section \<open>An example environment\<close>

text \<open>
  Concrete capabilities and library functions for running the model on examples. The
  outside world is a counter of the calls made, which also serves as the clock. The
  text-generation capability answers a classification or evaluation request with the
  question itself and streams the two increments "Hi" and "!". The similarity search
  fails for the query "x" and finds nothing for the query "n"; for the query "m" it
  returns four results of which only the second has a chunk id that counts; for every
  other query it returns three results, the third repeating the chunk id of the first.
\<close>

definition fragment :: "pystr \<Rightarrow> rat \<Rightarrow> search_result" where
  "fragment cid s =
     \<lparr>chunk_id = Val cid, chunk_text = Val (ascii ''text''),
      metadata = Val (Val (ascii ''Intro'')), score = Val s\<rparr>"

definition unidentified :: "pystr field \<Rightarrow> search_result" where
  "unidentified cid =
     \<lparr>chunk_id = cid, chunk_text = Val (ascii ''lost''),
      metadata = Val (Val (ascii ''Intro'')), score = Val (1 / 8)\<rparr>"

definition example_caps :: "nat capabilities" where
  "example_caps =
     \<lparr>uuid4 = (\<lambda>w. (ascii ''s2'', w + 1)),
      now = (\<lambda>w. (w, w + 1)),
      load_parsed_content = (\<lambda>pid w. (Inr (JObj []), w + 1)),
      llm_chat = (\<lambda>request w.
        (case request of
           IntentRequest q t h p \<Rightarrow> Inr q
         | EvaluationRequest q c p \<Rightarrow> Inr q
         | AnswerRequest c q h p \<Rightarrow> Inr [], w + 1)),
      llm_chat_stream = (\<lambda>request w. (Inr ([ascii ''Hi'', ascii ''!''], None), w + 1)),
      vector_search = (\<lambda>q k pid w.
        (if q = ascii ''x'' then Inl (CapabilityError (ascii ''down''))
         else if q = ascii ''n'' then Inr []
         else if q = ascii ''m'' then
           Inr [unidentified Missing, fragment (ascii ''c3'') (1 / 3), unidentified Null,
                unidentified (Val [])]
         else Inr [fragment (ascii ''c1'') (1 / 2), fragment (ascii ''c2'') (3 / 4),
                   fragment (ascii ''c1'') (1 / 4)],
         w + 1))\<rparr>"

text \<open>
  The library of the examples: \<open>json.loads\<close> under the default recursion limit of 1000,
  of which the frames of the callers take one at least, so that 999 levels remain at
  most; \<open>str.lower\<close> on ASCII text; and the lax validation of pydantic.
\<close>

definition example_lib :: pylib where
  "example_lib =
     \<lparr>json_loads = loads 999,
      str_lower = ascii_lower,
      valid_str = pydantic_str,
      valid_optional_str = pydantic_optional_str,
      valid_str_list = pydantic_str_list,
      valid_bool = pydantic_bool\<rparr>"

text \<open>An orchestrator with one session, "s1", on the paper "p1", with an empty history.\<close>

definition example_orchestrator :: "int \<Rightarrow> agent_orchestrator" where
  "example_orchestrator max_rounds =
     \<lparr>max_retrieval_rounds = max_rounds,
      sessions = [ascii ''s1'' \<mapsto>
        \<lparr>session_id = ascii ''s1'', paper_id = ascii ''p1'', messages = [], created_at = 0\<rparr>]\<rparr>"


text \<open>
  The same orchestrator after ten exchanges: the history of its session holds 20
  messages, a first question with its answer and nine later ones.
\<close>

definition example_long_history :: agent_orchestrator where
  "example_long_history =
     \<lparr>max_retrieval_rounds = 3,
      sessions = [ascii ''s1'' \<mapsto>
        \<lparr>session_id = ascii ''s1'', paper_id = ascii ''p1'',
         messages =
           \<lparr>role = User, content = ascii ''first'', timestamp = 0\<rparr>
           # \<lparr>role = Assistant, content = ascii ''first answer'', timestamp = 0\<rparr>
           # concat (replicate 9
               [\<lparr>role = User, content = ascii ''m'', timestamp = 0\<rparr>,
                \<lparr>role = Assistant, content = ascii ''a'', timestamp = 0\<rparr>]),
         created_at = 0\<rparr>]\<rparr>"

section \<open>Properties of the deduplication loops\<close>

lemma foldl_keep_unseen:
  "foldl keep_unseen (seen, kept) xs = (seen \<union> ids_of (fresh seen xs), kept @ fresh seen xs)"
proof (induction xs arbitrary: seen kept)
  case Nil
  then show ?case by (simp add: ids_of_def)
next
  case (Cons x xs)
  show ?case
  proof (cases "chunk_id x")
    case Missing
    then show ?thesis using Cons by (simp add: keep_unseen_def)
  next
    case Null
    then show ?thesis using Cons by (simp add: keep_unseen_def)
  next
    case (Val c)
    then show ?thesis using Cons by (auto simp add: keep_unseen_def ids_of_def)
  qed
qed

lemma deduplicate_results_fresh: "deduplicate_results xs = fresh {} xs"
  by (simp add: deduplicate_results_def foldl_keep_unseen)

lemma fresh_has_id: "r \<in> set (fresh seen xs) \<Longrightarrow> \<exists>c. chunk_id r = Val c \<and> c \<noteq> [] \<and> c \<notin> seen"
proof (induction xs arbitrary: seen)
  case Nil then show ?case by simp
next
  case (Cons x xs)
  show ?case
  proof (cases "chunk_id x")
    case Missing then show ?thesis using Cons by simp
  next
    case Null then show ?thesis using Cons by simp
  next
    case (Val c)
    then show ?thesis using Cons by (fastforce split: if_splits)
  qed
qed

lemma fresh_subset: "set (fresh seen xs) \<subseteq> set xs"
  by (induction xs arbitrary: seen) (auto split: option.splits if_splits)

lemma fresh_distinct: "distinct (map chunk_id (fresh seen xs))"
proof (induction xs arbitrary: seen)
  case Nil then show ?case by simp
next
  case (Cons x xs)
  show ?case
  proof (cases "chunk_id x")
    case Missing then show ?thesis using Cons by simp
  next
    case Null then show ?thesis using Cons by simp
  next
    case (Val c)
    show ?thesis
    proof (cases "c \<noteq> [] \<and> c \<notin> seen")
      case True
      have "chunk_id x \<notin> set (map chunk_id (fresh (insert c seen) xs))"
      proof
        assume "chunk_id x \<in> set (map chunk_id (fresh (insert c seen) xs))"
        then obtain r where r: "r \<in> set (fresh (insert c seen) xs)" "chunk_id r = chunk_id x"
          by auto
        from fresh_has_id [OF r(1)] r(2) Val show False by auto
      qed
      then show ?thesis using True Val Cons by simp
    next
      case False
      then show ?thesis using Val Cons by auto
    qed
  qed
qed

lemma fresh_append:
  "fresh seen (xs @ ys) = fresh seen xs @ fresh (seen \<union> ids_of (fresh seen xs)) ys"
proof (induction xs arbitrary: seen)
  case Nil then show ?case by (simp add: ids_of_def)
next
  case (Cons x xs)
  show ?case
  proof (cases "chunk_id x")
    case Missing then show ?thesis using Cons by simp
  next
    case Null then show ?thesis using Cons by simp
  next
    case (Val c)
    have "insert c seen \<union> ids_of (fresh (insert c seen) xs) = seen \<union> ids_of (x # fresh (insert c seen) xs)"
      using Val by (auto simp: ids_of_def)
    then show ?thesis using Cons Val by (auto split: if_splits)
  qed
qed

lemma fresh_fixed:
  "distinct (map chunk_id ks) \<Longrightarrow> \<forall>r\<in>set ks. \<exists>c. chunk_id r = Val c \<and> c \<noteq> [] \<and> c \<notin> seen
     \<Longrightarrow> fresh seen ks = ks"
proof (induction ks arbitrary: seen)
  case Nil then show ?case by simp
next
  case (Cons k ks)
  then obtain c where c: "chunk_id k = Val c" "c \<noteq> []" "c \<notin> seen" by auto
  have "\<forall>r\<in>set ks. \<exists>d. chunk_id r = Val d \<and> d \<noteq> [] \<and> d \<notin> insert c seen"
    using Cons.prems c by force
  then have "fresh (insert c seen) ks = ks" using Cons by simp
  then show ?case using c by simp
qed

lemma fresh_idem: "fresh {} (fresh {} xs) = fresh {} xs"
  by (rule fresh_fixed) (use fresh_distinct fresh_has_id in blast)+

section \<open>Properties of traces and of the retrieval loop\<close>

lemma yielded_append [simp]: "yielded (a @ b) = yielded a @ yielded b"
  by (induction a rule: yielded.induct) simp_all

lemma calls_append [simp]: "calls (a @ b) = calls a @ calls b"
  by (induction a rule: calls.induct) simp_all

lemma yielded_map_Yield [simp]: "yielded (map (\<lambda>x. Yield (f x)) xs) = map f xs"
  by (induction xs) simp_all

lemma retrieval_loop_induct [consumes 1, case_names exit error break step]:
  assumes run: "retrieval_loop caps lib top_k max_rounds pid question intent_result provider v w
                  = (tr, res, w')"
    and exit: "\<And>v w. \<not> (current_round v < max_rounds \<and> \<not> sufficient v) \<Longrightarrow> P v w [] (Inr v) w"
    and error: "\<And>v w tr e w1. current_round v < max_rounds \<Longrightarrow> \<not> sufficient v \<Longrightarrow>
        retrieval_round caps lib top_k max_rounds pid question intent_result provider
          (current_round v + 1) (all_results v) (evaluation_result v) w = (tr, Inl e, w1)
        \<Longrightarrow> P v w tr (Inl e) w1"
    and break: "\<And>v w tr results w1. current_round v < max_rounds \<Longrightarrow> \<not> sufficient v \<Longrightarrow>
        retrieval_round caps lib top_k max_rounds pid question intent_result provider
          (current_round v + 1) (all_results v) (evaluation_result v) w
          = (tr, Inr (Break results), w1)
        \<Longrightarrow> P v w tr (Inr (after_round v (Break results))) w1"
    and step: "\<And>v w tr results ev w1 tr' res w2. current_round v < max_rounds \<Longrightarrow> \<not> sufficient v \<Longrightarrow>
        retrieval_round caps lib top_k max_rounds pid question intent_result provider
          (current_round v + 1) (all_results v) (evaluation_result v) w
          = (tr, Inr (Evaluated results ev), w1) \<Longrightarrow>
        retrieval_loop caps lib top_k max_rounds pid question intent_result provider
          (after_round v (Evaluated results ev)) w1 = (tr', res, w2) \<Longrightarrow>
        P (after_round v (Evaluated results ev)) w1 tr' res w2
        \<Longrightarrow> P v w (tr @ tr') res w2"
  shows "P v w tr res w'"
  using run exit error break step
proof (induction caps lib top_k max_rounds pid question intent_result provider v w
        arbitrary: tr res w' rule: retrieval_loop.induct)
  case (1 caps lib top_k max_rounds pid question intent_result provider v w)
  show ?case
  proof (cases "current_round v < max_rounds \<and> \<not> sufficient v")
    case False
    then have "retrieval_loop caps lib top_k max_rounds pid question intent_result provider v w
                 = ([], Inr v, w)"
      by (subst retrieval_loop.simps) auto
    with "1.prems"(1) have "tr = []" "res = Inr v" "w' = w" by simp_all
    then show ?thesis using "1.prems"(2) [OF False] by simp
  next
    case True
    obtain tr1 r1 w1 where rr: "retrieval_round caps lib top_k max_rounds pid question
        intent_result provider (current_round v + 1) (all_results v) (evaluation_result v) w
        = (tr1, r1, w1)"
      by (cases "retrieval_round caps lib top_k max_rounds pid question
        intent_result provider (current_round v + 1) (all_results v) (evaluation_result v) w") auto
    show ?thesis
    proof (cases r1)
      case (Inl e)
      then have "retrieval_loop caps lib top_k max_rounds pid question intent_result provider v w
                 = (tr1, Inl e, w1)"
        using True rr by (subst retrieval_loop.simps) simp
      with "1.prems"(1) have "tr = tr1" "res = Inl e" "w' = w1" by simp_all
      then show ?thesis using "1.prems"(3) [of v w tr1 e w1] True rr Inl by simp
    next
      case (Inr ended)
      show ?thesis
      proof (cases ended)
        case (Break results)
        then have "retrieval_loop caps lib top_k max_rounds pid question intent_result provider v w
                 = (tr1, Inr (after_round v (Break results)), w1)"
          using True rr Inr by (subst retrieval_loop.simps) simp
        with "1.prems"(1) have "tr = tr1" "res = Inr (after_round v (Break results))" "w' = w1"
          by simp_all
        then show ?thesis using "1.prems"(4) [of v w tr1 results w1] True rr Inr Break by simp
      next
        case (Evaluated results ev)
        obtain tr2 r2 w2 where rec: "retrieval_loop caps lib top_k max_rounds pid question
            intent_result provider (after_round v (Evaluated results ev)) w1 = (tr2, r2, w2)"
          by (cases "retrieval_loop caps lib top_k max_rounds pid question
            intent_result provider (after_round v (Evaluated results ev)) w1") auto
        have "retrieval_loop caps lib top_k max_rounds pid question intent_result provider v w
                 = (tr1 @ tr2, r2, w2)"
          using True rr Inr Evaluated rec by (subst retrieval_loop.simps) simp
        with "1.prems"(1) have eq: "tr = tr1 @ tr2" "res = r2" "w' = w2" by simp_all
        have ih: "P (after_round v (Evaluated results ev)) w1 tr2 r2 w2"
          using "1.IH" [OF True rr [symmetric] refl Inr Evaluated rec]
            "1.prems"(2-5) by blast
        show ?thesis
          using "1.prems"(5) [of v w tr1 results ev w1 tr2 r2 w2] True rr Inr Evaluated rec ih eq
          by simp
      qed
    qed
  qed
qed

lemma retrieval_loop_exit:
  "\<not> (current_round v < max_rounds \<and> \<not> sufficient v) \<Longrightarrow>
     retrieval_loop caps lib top_k max_rounds pid question intent_result provider v w = ([], Inr v, w)"
  by (subst retrieval_loop.simps) auto

lemma search_similar_chunks_unfiltered:
  "search_similar_chunks caps lib q pid top_k None w =
     (case vector_search caps q top_k pid w of
        (Inl e, w1) \<Rightarrow> ([Call (VectorSearch q top_k pid)], Inl e, w1)
      | (Inr results, w1) \<Rightarrow> ([Call (VectorSearch q top_k pid)], Inr (slice_to top_k results), w1))"
  by (simp add: search_similar_chunks_def split: prod.splits sum.splits)

lemma search_keywords_loop_trace:
  "search_keywords_loop caps lib pid top_k kws found w = (tr, res, w') \<Longrightarrow>
     \<exists>n\<le>length kws. tr = map (\<lambda>k. Call (VectorSearch k top_k (Some pid))) (take n kws)
       \<and> (\<forall>ext. res = Inr ext \<longrightarrow> n = length kws \<and> (\<exists>extra. ext = found @ extra))"
proof (induction kws arbitrary: found w tr res w')
  case Nil
  then show ?case by auto
next
  case (Cons k kws)
  show ?case
  proof (cases "vector_search caps k top_k (Some pid) w")
    case (Pair r w1)
    show ?thesis
    proof (cases r)
      case (Inl e)
      with Pair Cons.prems have "tr = [Call (VectorSearch k top_k (Some pid))]" "res = Inl e"
        by (auto simp: search_similar_chunks_unfiltered)
      then show ?thesis by (intro exI [of _ 1]) auto
    next
      case (Inr results)
      obtain tr2 res2 w2 where rec: "search_keywords_loop caps lib pid top_k kws
          (found @ slice_to top_k results) w1 = (tr2, res2, w2)"
        by (metis prod_cases3)
      with Pair Inr Cons.prems have eq: "tr = Call (VectorSearch k top_k (Some pid)) # tr2" "res = res2"
        by (auto simp: search_similar_chunks_unfiltered)
      from Cons.IH [OF rec] obtain n where n: "n \<le> length kws"
        "tr2 = map (\<lambda>k. Call (VectorSearch k top_k (Some pid))) (take n kws)"
        "\<forall>ext. res2 = Inr ext \<longrightarrow> n = length kws \<and> (\<exists>extra. ext = (found @ slice_to top_k results) @ extra)"
        by blast
      show ?thesis using n eq by (intro exI [of _ "Suc n"]) auto
    qed
  qed
qed

lemma evaluate_trace:
  "evaluate caps lib question ctx provider w = (tr, res, w') \<Longrightarrow>
     tr = [Call (Chat (EvaluationRequest question ctx provider))]"
  by (auto simp: evaluate_def Let_def split: prod.splits sum.splits option.splits if_splits)

lemma analyze_trace:
  "analyze caps lib question titles history provider w = (tr, res, w') \<Longrightarrow>
     tr = [Call (Chat (intent_request question titles history provider))]"
  by (auto simp: analyze_def Let_def split: prod.splits sum.splits option.splits if_splits)

lemma retrieval_round_cases [consumes 1, case_names unbound search_failed found_nothing failed evaluated]:
  assumes run: "retrieval_round caps lib top_k max_rounds pid question intent_result provider
                  rnd found prev w = (tr, res, w')"
  obtains
    (unbound) "tr = []" "res = Inl UnboundLocalError"
  | (search_failed) ks n e where "n \<le> 3"
      "tr = Yield (AgentStreamEvent Retrieval (RoundStarted rnd ks))
              # map (\<lambda>k. Call (VectorSearch k top_k (Some pid))) (take n ks)"
      "res = Inl e"
  | (found_nothing) ks n extra where "n \<le> 3"
      "tr = Yield (AgentStreamEvent Retrieval (RoundStarted rnd ks))
              # map (\<lambda>k. Call (VectorSearch k top_k (Some pid))) (take n ks)
              @ [Yield (AgentStreamEvent Retrieval (FragmentsFound 0)),
                 Yield (AgentStreamEvent Evaluation NothingFound)]"
      "res = Inr (Break [])" "deduplicate_results (found @ extra) = []"
  | (failed) ks n extra e tail where "n \<le> 3"
      "tr = Yield (AgentStreamEvent Retrieval (RoundStarted rnd ks))
              # map (\<lambda>k. Call (VectorSearch k top_k (Some pid))) (take n ks)
              @ Yield (AgentStreamEvent Retrieval
                         (FragmentsFound (length (deduplicate_results (found @ extra)))))
              # Yield (AgentStreamEvent Thinking EvaluatingCompleteness) # tail"
      "tail = [] \<or> (\<exists>ctx. tail = [Call (Chat (EvaluationRequest question ctx provider))])"
      "res = Inl e" "deduplicate_results (found @ extra) \<noteq> []"
  | (evaluated) ks n extra ctx ev where "n \<le> 3"
      "tr = Yield (AgentStreamEvent Retrieval (RoundStarted rnd ks))
              # map (\<lambda>k. Call (VectorSearch k top_k (Some pid))) (take n ks)
              @ [Yield (AgentStreamEvent Retrieval
                          (FragmentsFound (length (deduplicate_results (found @ extra))))),
                 Yield (AgentStreamEvent Thinking EvaluatingCompleteness),
                 Call (Chat (EvaluationRequest question ctx provider)),
                 verdict_event max_rounds rnd ev]"
      "res = Inr (Evaluated (deduplicate_results (found @ extra)) ev)"
      "deduplicate_results (found @ extra) \<noteq> []"
proof -
  define kw where "kw = (if rnd = 1 then Inr (intent_keywords intent_result)
            else (case prev of
                    None \<Rightarrow> Inl UnboundLocalError
                  | Some ev \<Rightarrow>
                      Inr (if suggested_keywords ev \<noteq> [] then suggested_keywords ev
                           else [question])))"
  show thesis
  proof (cases kw)
    case (Inl e)
    then have "tr = []" "res = Inl UnboundLocalError"
      using run unfolding retrieval_round_def kw_def
      by (auto split: if_splits option.splits)
    then show ?thesis by (rule unbound)
  next
    case (Inr ks)
    obtain tr1 r1 w1 where skl: "search_keywords_loop caps lib pid top_k (take 3 ks) found w
        = (tr1, r1, w1)"
      by (metis prod_cases3)
    from search_keywords_loop_trace [OF skl] obtain n where n: "n \<le> length (take 3 ks)"
      "tr1 = map (\<lambda>k. Call (VectorSearch k top_k (Some pid))) (take n (take 3 ks))"
      "\<forall>ext. r1 = Inr ext \<longrightarrow> n = length (take 3 ks) \<and> (\<exists>extra. ext = found @ extra)"
      by blast
    have n3: "n \<le> 3" using n(1) by simp
    have tr1: "tr1 = map (\<lambda>k. Call (VectorSearch k top_k (Some pid))) (take n ks)"
      using n(2) n3 by (simp add: min_def)
    show ?thesis
    proof (cases r1)
      case (Inl e)
      have "tr = Yield (AgentStreamEvent Retrieval (RoundStarted rnd ks)) # tr1" "res = Inl e"
        using run Inr Inl skl unfolding retrieval_round_def kw_def [symmetric] by simp_all
      then show ?thesis by (intro search_failed [of n ks e, OF n3]) (simp_all add: tr1)
    next
      case r1: (Inr ext)
      then obtain extra where extra: "ext = found @ extra" using n(3) by blast
      let ?rs = "deduplicate_results (found @ extra)"
      show ?thesis
      proof (cases "?rs = []")
        case True
        have "tr = Yield (AgentStreamEvent Retrieval (RoundStarted rnd ks)) # tr1
                @ [Yield (AgentStreamEvent Retrieval (FragmentsFound 0)),
                   Yield (AgentStreamEvent Evaluation NothingFound)]" "res = Inr (Break [])"
          using run Inr r1 skl extra True unfolding retrieval_round_def kw_def [symmetric]
          by (simp_all add: Let_def)
        then show ?thesis by (intro found_nothing [of n ks extra, OF n3 _ _ True]) (simp_all add: tr1)
      next
        case False
        show ?thesis
        proof (cases "format_context ?rs")
          case (Inl e)
          have "tr = Yield (AgentStreamEvent Retrieval (RoundStarted rnd ks)) # tr1
                @ Yield (AgentStreamEvent Retrieval (FragmentsFound (length ?rs)))
                # Yield (AgentStreamEvent Thinking EvaluatingCompleteness) # []" "res = Inl e"
            using run Inr r1 skl extra False Inl unfolding retrieval_round_def kw_def [symmetric]
            by (simp_all add: Let_def)
          then show ?thesis by (intro failed [of n ks extra "[]" e, OF n3 _ _ _ False]) (simp_all add: tr1)
        next
          case ctx: (Inr ctx)
          obtain tr3 r3 w3 where ev: "evaluate caps lib question ctx provider w1 = (tr3, r3, w3)"
            by (metis prod_cases3)
          have tr3: "tr3 = [Call (Chat (EvaluationRequest question ctx provider))]"
            using evaluate_trace [OF ev] .
          show ?thesis
          proof (cases r3)
            case (Inl e)
            have "tr = Yield (AgentStreamEvent Retrieval (RoundStarted rnd ks)) # tr1
                @ Yield (AgentStreamEvent Retrieval (FragmentsFound (length ?rs)))
                # Yield (AgentStreamEvent Thinking EvaluatingCompleteness) # tr3" "res = Inl e"
              using run Inr r1 skl extra False ctx ev Inl
              unfolding retrieval_round_def kw_def [symmetric]
              by (simp_all add: Let_def)
            then show ?thesis by (intro failed [of n ks extra tr3 e, OF n3 _ _ _ False]) (simp_all add: tr1 tr3)
          next
            case (Inr v)
            have "tr = Yield (AgentStreamEvent Retrieval (RoundStarted rnd ks)) # tr1
                @ [Yield (AgentStreamEvent Retrieval (FragmentsFound (length ?rs))),
                   Yield (AgentStreamEvent Thinking EvaluatingCompleteness),
                   Call (Chat (EvaluationRequest question ctx provider)),
                   verdict_event max_rounds rnd v]" "res = Inr (Evaluated ?rs v)"
              using run \<open>kw = Inr ks\<close> r1 skl extra False ctx ev Inr tr3
              unfolding retrieval_round_def kw_def [symmetric]
              by (simp_all add: Let_def)
            then show ?thesis by (intro evaluated [of n ks extra ctx v, OF n3 _ _ False]) (simp_all add: tr1)
          qed
        qed
      qed
    qed
  qed
qed

lemma loop_io_verdict_event [simp]: "loop_io (verdict_event m r ev)"
  by (simp add: verdict_event_def)

lemma list_all_loop_io_searches [simp]:
  "list_all loop_io (map (\<lambda>k. Call (VectorSearch k top_k p)) ks)"
  by (induction ks) simp_all

lemma retrieval_round_io:
  assumes "retrieval_round caps lib top_k max_rounds pid question intent_result provider
             rnd found prev w = (tr, res, w')"
  shows "list_all loop_io tr"
  using assms by (cases rule: retrieval_round_cases) auto

lemma retrieval_loop_io:
  assumes "retrieval_loop caps lib top_k max_rounds pid question intent_result provider v w
             = (tr, res, w')"
  shows "list_all loop_io tr"
  using assms
proof (induction rule: retrieval_loop_induct)
  case (exit v w)
  then show ?case by simp
next
  case (error v w tr e w1)
  then show ?case by (simp add: retrieval_round_io)
next
  case (break v w tr results w1)
  then show ?case by (simp add: retrieval_round_io)
next
  case (step v w tr results ev w1 tr' res w2)
  then show ?case by (simp add: retrieval_round_io)
qed

lemma loop_io_nonterminal: "list_all loop_io tr \<Longrightarrow> list_all (\<lambda>e. \<not> is_terminal e) (yielded tr)"
  by (induction tr rule: yielded.induct) (auto simp: is_terminal_def)

lemma loop_io_no_content: "list_all loop_io tr \<Longrightarrow> content_texts tr = []"
proof (induction tr rule: yielded.induct)
  case 1
  then show ?case by (simp add: content_texts_def)
next
  case (2 e tr)
  then have "content_text e = []" by (cases e) (auto elim: content_text.elims)
  then show ?case using 2 by (simp add: content_texts_def)
next
  case (3 c tr)
  then show ?case by (simp add: content_texts_def)
qed

lemma loop_io_no_stream: "list_all loop_io tr \<Longrightarrow> \<not> list_ex is_stream_call tr"
  by (induction tr) (auto elim: loop_io.elims)

text \<open>Results of a round.\<close>

lemma retrieval_round_results:
  assumes "retrieval_round caps lib top_k max_rounds pid question intent_result provider
             rnd found prev w = (tr, Inr ended, w')"
  shows "\<exists>extra. all_results (after_round v ended) = deduplicate_results (found @ extra)"
  using assms by (cases rule: retrieval_round_cases) (auto, metis)

lemma deduplicate_results_extends:
  assumes "fresh {} found = found"
  shows "prefix found (deduplicate_results (found @ extra))"
  using assms by (simp add: deduplicate_results_fresh fresh_append [of "{}" found extra])

lemma retrieval_loop_results:
  assumes "retrieval_loop caps lib top_k max_rounds pid question intent_result provider v w
             = (tr, res, w')"
  shows "fresh {} (all_results v) = all_results v \<longrightarrow>
           (\<forall>v'. res = Inr v' \<longrightarrow> fresh {} (all_results v') = all_results v'
                     \<and> prefix (all_results v) (all_results v'))"
  using assms
proof (induction rule: retrieval_loop_induct)
  case (exit v w)
  then show ?case by simp
next
  case (error v w tr e w1)
  then show ?case by simp
next
  case (break v w tr results w1)
  from retrieval_round_results [OF break(3), of v] obtain extra where
    "all_results (after_round v (Break results)) = deduplicate_results (all_results v @ extra)"
    by blast
  then show ?case
    using deduplicate_results_extends [of "all_results v" extra]
    by (auto simp: deduplicate_results_fresh fresh_idem)
next
  case (step v w tr results ev w1 tr' res w2)
  from retrieval_round_results [OF step(3), of v] obtain extra where
    m: "all_results (after_round v (Evaluated results ev)) = deduplicate_results (all_results v @ extra)"
    by blast
  show ?case
  proof (intro impI allI)
    fix v' assume inv: "fresh {} (all_results v) = all_results v" and res: "res = Inr v'"
    have inv': "fresh {} (all_results (after_round v (Evaluated results ev)))
                  = all_results (after_round v (Evaluated results ev))"
      unfolding m by (simp add: deduplicate_results_fresh fresh_idem)
    have p: "prefix (all_results v) (all_results (after_round v (Evaluated results ev)))"
      unfolding m using deduplicate_results_extends [OF inv] .
    from step.IH inv' res have "fresh {} (all_results v') = all_results v'"
      "prefix (all_results (after_round v (Evaluated results ev))) (all_results v')" by auto
    then show "fresh {} (all_results v') = all_results v' \<and> prefix (all_results v) (all_results v')"
      using p by (auto intro: prefix_order.order_trans)
  qed
qed

text \<open>The searches and the evidence of a round, and the context it has evaluated.\<close>

lemma search_keywords_loop_results:
  "search_keywords_loop caps lib pid top_k kws found w = (tr, Inr ext, w') \<Longrightarrow>
     tr = map (\<lambda>k. Call (VectorSearch k top_k (Some pid))) kws
     \<and> length (keyword_results caps lib kws (Some pid) top_k None w) = length kws
     \<and> ext = found @ concat (keyword_results caps lib kws (Some pid) top_k None w)"
proof (induction kws arbitrary: found w tr w')
  case Nil
  then show ?case by simp
next
  case (Cons k kws)
  obtain r w1 where vs: "vector_search caps k top_k (Some pid) w = (r, w1)"
    by (cases "vector_search caps k top_k (Some pid) w")
  show ?case
  proof (cases r)
    case (Inl e)
    then show ?thesis using Cons.prems vs by (simp add: search_similar_chunks_unfiltered)
  next
    case (Inr results)
    obtain tr2 res2 w2 where rec: "search_keywords_loop caps lib pid top_k kws
        (found @ slice_to top_k results) w1 = (tr2, res2, w2)" by (metis prod_cases3)
    with Cons.prems vs Inr have eq: "tr = Call (VectorSearch k top_k (Some pid)) # tr2"
      "res2 = Inr ext" by (auto simp: search_similar_chunks_unfiltered)
    have kr: "keyword_results caps lib (k # kws) (Some pid) top_k None w
        = slice_to top_k results # keyword_results caps lib kws (Some pid) top_k None w1"
      using vs Inr by (simp add: search_similar_chunks_unfiltered)
    from Cons.IH [OF rec [unfolded eq(2)]] show ?thesis
      unfolding kr using eq(1) by simp
  qed
qed

lemma filter_is_search_searches [simp]:
  "filter is_search (map (\<lambda>k. Call (VectorSearch k top_k p)) ks)
     = map (\<lambda>k. Call (VectorSearch k top_k p)) ks"
  by (induction ks) simp_all

lemma not_search_verdict_event [simp]: "\<not> is_search (verdict_event m r ev)"
  by (simp add: verdict_event_def)

lemma evaluation_contexts_simps [simp]:
  "evaluation_contexts [] = []"
  "evaluation_contexts (Yield e # tr) = evaluation_contexts tr"
  "evaluation_contexts (Call (VectorSearch q k p) # tr) = evaluation_contexts tr"
  "evaluation_contexts (Call (Chat (EvaluationRequest q ctx p)) # tr) = ctx # evaluation_contexts tr"
  "evaluation_contexts (a @ b) = evaluation_contexts a @ evaluation_contexts b"
  by (simp_all add: evaluation_contexts_def)

lemma evaluation_contexts_searches [simp]:
  "evaluation_contexts (map (\<lambda>k. Call (VectorSearch k top_k p)) ks) = []"
  by (induction ks) simp_all

lemma evaluation_contexts_verdict [simp]:
  "evaluation_contexts (verdict_event m r ev # tr) = evaluation_contexts tr"
  by (simp add: verdict_event_def)

lemma retrieval_round_evidence:
  assumes run: "retrieval_round caps lib top_k max_rounds pid question intent_result provider
                  rnd found prev w = (tr, res, w')"
  shows "tr = [] \<and> res = Inl UnboundLocalError
       \<or> (\<exists>kws rest. tr = Yield (AgentStreamEvent Retrieval (RoundStarted rnd kws)) # rest
             \<and> (\<forall>ended. res = Inr ended \<longrightarrow>
                   filter is_search tr
                     = map (\<lambda>k. Call (VectorSearch k top_k (Some pid))) (take 3 kws)
                 \<and> length (keyword_results caps lib (take 3 kws) (Some pid) top_k None w)
                     = length (take 3 kws)
                 \<and> round_results ended = deduplicate_results
                      (found @ concat (keyword_results caps lib (take 3 kws) (Some pid) top_k None w)))
             \<and> (evaluation_contexts tr = []
                 \<or> (\<exists>ctx. evaluation_contexts tr = [ctx]
                       \<and> format_context (deduplicate_results
                            (found @ concat (keyword_results caps lib (take 3 kws) (Some pid) top_k None w)))
                          = Inr ctx)))"
proof -
  define kw where "kw = (if rnd = 1 then Inr (intent_keywords intent_result)
            else (case prev of
                    None \<Rightarrow> Inl UnboundLocalError
                  | Some ev \<Rightarrow>
                      Inr (if suggested_keywords ev \<noteq> [] then suggested_keywords ev
                           else [question])))"
  show ?thesis
  proof (cases kw)
    case (Inl e)
    then have "tr = []" "res = Inl UnboundLocalError"
      using run unfolding retrieval_round_def kw_def
      by (auto split: if_splits option.splits)
    then show ?thesis by simp
  next
    case (Inr ks)
    obtain tr1 r1 w1 where skl: "search_keywords_loop caps lib pid top_k (take 3 ks) found w
        = (tr1, r1, w1)"
      by (metis prod_cases3)
    from search_keywords_loop_trace [OF skl] obtain n where
      tr1: "tr1 = map (\<lambda>k. Call (VectorSearch k top_k (Some pid))) (take n (take 3 ks))"
      by blast
    let ?E = "deduplicate_results
                (found @ concat (keyword_results caps lib (take 3 ks) (Some pid) top_k None w))"
    show ?thesis
    proof (cases r1)
      case (Inl e)
      have "tr = Yield (AgentStreamEvent Retrieval (RoundStarted rnd ks)) # tr1" "res = Inl e"
        using run Inr Inl skl unfolding retrieval_round_def kw_def [symmetric] by simp_all
      then show ?thesis using tr1 by simp
    next
      case r1: (Inr ext)
      from search_keywords_loop_results [OF skl [unfolded r1]] have
        t: "tr1 = map (\<lambda>k. Call (VectorSearch k top_k (Some pid))) (take 3 ks)"
        and l: "length (keyword_results caps lib (take 3 ks) (Some pid) top_k None w)
                  = length (take 3 ks)"
        and e: "ext = found @ concat (keyword_results caps lib (take 3 ks) (Some pid) top_k None w)"
        by blast+
      show ?thesis
      proof (cases "?E = []")
        case True
        have "tr = Yield (AgentStreamEvent Retrieval (RoundStarted rnd ks)) # tr1
                @ [Yield (AgentStreamEvent Retrieval (FragmentsFound 0)),
                   Yield (AgentStreamEvent Evaluation NothingFound)]" "res = Inr (Break [])"
          using run Inr r1 skl e True unfolding retrieval_round_def kw_def [symmetric]
          by (simp_all add: Let_def)
        then show ?thesis using t l True by simp
      next
        case False
        show ?thesis
        proof (cases "format_context ?E")
          case (Inl x)
          have "tr = Yield (AgentStreamEvent Retrieval (RoundStarted rnd ks)) # tr1
                @ Yield (AgentStreamEvent Retrieval (FragmentsFound (length ?E)))
                # Yield (AgentStreamEvent Thinking EvaluatingCompleteness) # []" "res = Inl x"
            using run Inr r1 skl e False Inl unfolding retrieval_round_def kw_def [symmetric]
            by (simp_all add: Let_def)
          then show ?thesis using t by simp
        next
          case ctx: (Inr ctx)
          obtain tr3 r3 w3 where ev: "evaluate caps lib question ctx provider w1 = (tr3, r3, w3)"
            by (metis prod_cases3)
          have tr3: "tr3 = [Call (Chat (EvaluationRequest question ctx provider))]"
            using evaluate_trace [OF ev] .
          show ?thesis
          proof (cases r3)
            case (Inl x)
            have "tr = Yield (AgentStreamEvent Retrieval (RoundStarted rnd ks)) # tr1
                @ Yield (AgentStreamEvent Retrieval (FragmentsFound (length ?E)))
                # Yield (AgentStreamEvent Thinking EvaluatingCompleteness) # tr3" "res = Inl x"
              using run Inr r1 skl e False ctx ev Inl
              unfolding retrieval_round_def kw_def [symmetric]
              by (simp_all add: Let_def)
            then show ?thesis using t tr3 ctx by simp
          next
            case (Inr v)
            have "tr = Yield (AgentStreamEvent Retrieval (RoundStarted rnd ks)) # tr1
                @ [Yield (AgentStreamEvent Retrieval (FragmentsFound (length ?E))),
                   Yield (AgentStreamEvent Thinking EvaluatingCompleteness),
                   Call (Chat (EvaluationRequest question ctx provider)),
                   verdict_event max_rounds rnd v]" "res = Inr (Evaluated ?E v)"
              using run \<open>kw = Inr ks\<close> r1 skl e False ctx ev Inr tr3
              unfolding retrieval_round_def kw_def [symmetric]
              by (simp_all add: Let_def)
            then show ?thesis using t l ctx by simp
          qed
        qed
      qed
    qed
  qed
qed

section \<open>The stages of an exchange\<close>

lemma get_section_titles_trace:
  "get_section_titles caps pid w = (tr, titles, w') \<Longrightarrow> tr = [Call (LoadParsedContent pid)]"
  by (auto simp: get_section_titles_def split: prod.splits sum.splits)

lemma generate_answer_cases [consumes 1, case_names canned format_failed refused streamed]:
  assumes run: "generate_answer caps session question provider found w = (tr, res, w')"
  obtains
    (canned) "found = []" "tr = [Yield (AgentStreamEvent Content (Chunk not_found_answer))]"
      "res = Inr not_found_answer" "w' = w"
  | (format_failed) e where "found \<noteq> []" "tr = []" "res = Inl e"
  | (refused) req e where "found \<noteq> []" "tr = [Call (ChatStream req)]" "res = Inl e"
  | (streamed) req chunks failure where "found \<noteq> []"
      "tr = Call (ChatStream req) # map (\<lambda>c. Yield (AgentStreamEvent Content (Chunk c))) chunks"
      "res = (case failure of None \<Rightarrow> Inr (concat chunks) | Some e \<Rightarrow> Inl e)"
proof (cases "found = []")
  case True
  then show ?thesis using run canned by (simp add: generate_answer_def)
next
  case False
  show ?thesis
  proof (cases "format_context found")
    case (Inl e)
    then show ?thesis using run False format_failed [of e] by (simp add: generate_answer_def)
  next
    case (Inr ctx)
    define req where "req = AnswerRequest ctx question
      (map (\<lambda>msg. (role msg, content msg)) (last_n 6 (messages session))) provider"
    obtain r w1 where st: "llm_chat_stream caps req w = (r, w1)" by (cases "llm_chat_stream caps req w")
    show ?thesis
    proof (cases r)
      case (Inl e)
      then have "tr = [Call (ChatStream req)]" "res = Inl e"
        using run False Inr st by (simp_all add: generate_answer_def req_def Let_def)
      then show ?thesis using refused [OF False] by blast
    next
      case r: (Inr p)
      obtain chunks failure where p: "p = (chunks, failure)" by (cases p)
      have "tr = Call (ChatStream req) # map (\<lambda>c. Yield (AgentStreamEvent Content (Chunk c))) chunks"
        "res = (case failure of None \<Rightarrow> Inr (concat chunks) | Some e \<Rightarrow> Inl e)"
        using run False Inr st r p by (simp_all add: generate_answer_def req_def Let_def)
      then show ?thesis using streamed [OF False] by blast
    qed
  qed
qed

lemma content_texts_chunks [simp]:
  "content_texts (map (\<lambda>c. Yield (AgentStreamEvent Content (Chunk c))) chunks) = chunks"
  by (induction chunks) (simp_all add: content_texts_def)

lemma content_texts_append [simp]: "content_texts (a @ b) = content_texts a @ content_texts b"
  by (simp add: content_texts_def)

lemma content_texts_Call [simp]: "content_texts (Call c # tr) = content_texts tr"
  by (simp add: content_texts_def)

lemma content_texts_Yield [simp]:
  "content_texts (Yield e # tr) = content_text e @ content_texts tr"
  by (simp add: content_texts_def)

lemma content_texts_Nil [simp]: "content_texts [] = []"
  by (simp add: content_texts_def)

lemma generate_answer_content:
  assumes "generate_answer caps session question provider found w = (tr, Inr answer, w')"
  shows "concat (content_texts tr) = answer"
  using assms
  by (cases rule: generate_answer_cases) (auto split: option.splits)

lemma generate_answer_nonterminal:
  assumes "generate_answer caps session question provider found w = (tr, res, w')"
  shows "list_all (\<lambda>e. \<not> is_terminal e) (yielded tr)"
  using assms
  by (cases rule: generate_answer_cases) (auto simp: is_terminal_def list_all_iff)

lemma last_n_short: "length xs \<le> n \<Longrightarrow> last_n n xs = xs"
  by (simp add: last_n_def)

lemma save_history_sessions:
  assumes "save_history caps self sid session question answer w = (self', w')"
  shows "\<exists>t1 t2. self' = self\<lparr>sessions := (sessions self)
           (sid \<mapsto> session\<lparr>messages := last_n 20 (messages session
              @ [\<lparr>role = User, content = question, timestamp = t1\<rparr>,
                 \<lparr>role = Assistant, content = answer, timestamp = t2\<rparr>])\<rparr>)\<rparr>"
proof -
  obtain t1 w1 where n1: "now caps w = (t1, w1)" by (cases "now caps w")
  obtain t2 w2 where n2: "now caps w1 = (t2, w2)" by (cases "now caps w1")
  let ?app = "messages session
              @ [\<lparr>role = User, content = question, timestamp = t1\<rparr>,
                 \<lparr>role = Assistant, content = answer, timestamp = t2\<rparr>]"
  have "(if 20 < length ?app then last_n 20 ?app else ?app) = last_n 20 ?app"
    by (simp add: last_n_def)
  then have "self' = self\<lparr>sessions := (sessions self)
           (sid \<mapsto> session\<lparr>messages := last_n 20 ?app\<rparr>)\<rparr>"
    using assms n1 n2 by (simp add: save_history_def Let_def)
  then show ?thesis by blast
qed

lemma try_body_cases [consumes 1, case_names intent_failed loop_failed answer_failed sources_failed completed]:
  assumes run: "try_body caps lib top_k self sid session pid question provider w = (tr, res, self2, w2)"
  obtains
    (intent_failed) titles e where
      "tr = [Yield (AgentStreamEvent Thinking AnalysingIntent), Call (LoadParsedContent pid),
             Call (Chat (intent_request question titles (messages session) provider))]"
      "res = Inl e" "self2 = self"
  | (loop_failed) titles intent_result tr_l e wa where
      "tr = [Yield (AgentStreamEvent Thinking AnalysingIntent), Call (LoadParsedContent pid),
             Call (Chat (intent_request question titles (messages session) provider)), Yield (AgentStreamEvent Thinking (IntentRecognised intent_result))]
            @ tr_l"
      "retrieval_loop caps lib top_k (max_retrieval_rounds self) pid question intent_result
         provider initial_vars wa = (tr_l, Inl e, w2)"
      "res = Inl e" "self2 = self"
  | (answer_failed) titles intent_result tr_l v wa wb tr_s e where
      "tr = [Yield (AgentStreamEvent Thinking AnalysingIntent), Call (LoadParsedContent pid),
             Call (Chat (intent_request question titles (messages session) provider)), Yield (AgentStreamEvent Thinking (IntentRecognised intent_result))]
            @ tr_l @ tr_s"
      "retrieval_loop caps lib top_k (max_retrieval_rounds self) pid question intent_result
         provider initial_vars wa = (tr_l, Inr v, wb)"
      "generate_answer caps session question provider (all_results v) wb = (tr_s, Inl e, w2)"
      "res = Inl e" "self2 = self"
  | (sources_failed) titles intent_result tr_l v wa wb tr_s answer e where
      "tr = [Yield (AgentStreamEvent Thinking AnalysingIntent), Call (LoadParsedContent pid),
             Call (Chat (intent_request question titles (messages session) provider)), Yield (AgentStreamEvent Thinking (IntentRecognised intent_result))]
            @ tr_l @ tr_s"
      "retrieval_loop caps lib top_k (max_retrieval_rounds self) pid question intent_result
         provider initial_vars wa = (tr_l, Inr v, wb)"
      "generate_answer caps session question provider (all_results v) wb = (tr_s, Inr answer, w2)"
      "source_entries (take 5 (all_results v)) = Inl e"
      "res = Inl e" "self2 = self"
  | (completed) titles intent_result tr_l v wa wb tr_s answer wc entries where
      "tr = [Yield (AgentStreamEvent Thinking AnalysingIntent), Call (LoadParsedContent pid),
             Call (Chat (intent_request question titles (messages session) provider)), Yield (AgentStreamEvent Thinking (IntentRecognised intent_result))]
            @ tr_l @ tr_s
            @ [Yield (AgentStreamEvent Sources (SourceList entries)),
               Yield (AgentStreamEvent Done (Flag True))]"
      "retrieval_loop caps lib top_k (max_retrieval_rounds self) pid question intent_result
         provider initial_vars wa = (tr_l, Inr v, wb)"
      "generate_answer caps session question provider (all_results v) wb = (tr_s, Inr answer, wc)"
      "source_entries (take 5 (all_results v)) = Inr entries"
      "save_history caps self sid session question answer wc = (self2, w2)"
      "res = Inr ()"
proof -
  obtain tr_t titles w1 where gt: "get_section_titles caps pid w = (tr_t, titles, w1)"
    by (metis prod_cases3)
  have tr_t: "tr_t = [Call (LoadParsedContent pid)]" using get_section_titles_trace [OF gt] .
  obtain tr_a ra wa where an: "analyze caps lib question titles (messages session) provider w1
      = (tr_a, ra, wa)" by (metis prod_cases3)
  have tr_a: "tr_a = [Call (Chat (intent_request question titles (messages session) provider))]"
    using analyze_trace [OF an] .
  show thesis
  proof (cases ra)
    case (Inl e)
    then have "tr = [Yield (AgentStreamEvent Thinking AnalysingIntent), Call (LoadParsedContent pid),
             Call (Chat (intent_request question titles (messages session) provider))]" "res = Inl e" "self2 = self"
      using run gt an tr_t tr_a by (simp_all add: try_body_def)
    then show ?thesis by (rule intent_failed)
  next
    case ra: (Inr intent_result)
    obtain tr_l rl wb where lp: "retrieval_loop caps lib top_k (max_retrieval_rounds self) pid
        question intent_result provider initial_vars wa = (tr_l, rl, wb)" by (metis prod_cases3)
    show ?thesis
    proof (cases rl)
      case (Inl e)
      then have "tr = [Yield (AgentStreamEvent Thinking AnalysingIntent), Call (LoadParsedContent pid),
             Call (Chat (intent_request question titles (messages session) provider)), Yield (AgentStreamEvent Thinking (IntentRecognised intent_result))]
            @ tr_l" "res = Inl e" "self2 = self" "w2 = wb"
        using run gt an tr_t tr_a ra lp by (simp_all add: try_body_def Let_def)
      then show ?thesis using loop_failed [of titles intent_result tr_l wa e] lp Inl by simp
    next
      case rl: (Inr v)
      obtain tr_s rs wc where ga: "generate_answer caps session question provider (all_results v) wb
          = (tr_s, rs, wc)" by (metis prod_cases3)
      show ?thesis
      proof (cases rs)
        case (Inl e)
        then have "tr = [Yield (AgentStreamEvent Thinking AnalysingIntent), Call (LoadParsedContent pid),
             Call (Chat (intent_request question titles (messages session) provider)), Yield (AgentStreamEvent Thinking (IntentRecognised intent_result))]
            @ tr_l @ tr_s" "res = Inl e" "self2 = self" "w2 = wc"
          using run gt an tr_t tr_a ra lp rl ga by (simp_all add: try_body_def Let_def)
        then show ?thesis
          using answer_failed [of titles intent_result tr_l tr_s wa v wb e] lp rl ga Inl by simp
      next
        case rs: (Inr answer)
        show ?thesis
        proof (cases "source_entries (take 5 (all_results v))")
          case (Inl e)
          then have "tr = [Yield (AgentStreamEvent Thinking AnalysingIntent), Call (LoadParsedContent pid),
             Call (Chat (intent_request question titles (messages session) provider)), Yield (AgentStreamEvent Thinking (IntentRecognised intent_result))]
            @ tr_l @ tr_s" "res = Inl e" "self2 = self" "w2 = wc"
            using run gt an tr_t tr_a ra lp rl ga rs by (simp_all add: try_body_def Let_def)
          then show ?thesis
            using sources_failed [of titles intent_result tr_l tr_s wa v wb answer e] lp rl ga rs Inl
            by simp
        next
          case (Inr entries)
          obtain s5 w5 where sh: "save_history caps self sid session question answer wc = (s5, w5)"
            by (cases "save_history caps self sid session question answer wc")
          have "tr = [Yield (AgentStreamEvent Thinking AnalysingIntent), Call (LoadParsedContent pid),
             Call (Chat (intent_request question titles (messages session) provider)), Yield (AgentStreamEvent Thinking (IntentRecognised intent_result))]
            @ tr_l @ tr_s
            @ [Yield (AgentStreamEvent Sources (SourceList entries)),
               Yield (AgentStreamEvent Done (Flag True))]" "res = Inr ()" "self2 = s5" "w2 = w5"
            using run gt an tr_t tr_a ra lp rl ga rs Inr sh by (simp_all add: try_body_def Let_def)
          then show ?thesis
            using completed [of titles intent_result tr_l tr_s entries wa v wb answer wc] lp rl ga rs Inr sh
            by simp
        qed
      qed
    qed
  qed
qed

lemma try_body_summary:
  assumes run: "try_body caps lib top_k self sid session pid question provider w = (tr, res, self2, w2)"
  shows "(\<exists>e. res = Inl e \<and> self2 = self \<and> list_all (\<lambda>x. \<not> is_terminal x) (yielded tr))
       \<or> (res = Inr () \<and> (\<exists>tr0 entries answer t1 t2.
             tr = tr0 @ [Yield (AgentStreamEvent Sources (SourceList entries)),
                         Yield (AgentStreamEvent Done (Flag True))]
             \<and> list_all (\<lambda>x. \<not> is_terminal x) (yielded tr0)
             \<and> concat (content_texts tr0) = answer
             \<and> self2 = self\<lparr>sessions := (sessions self)
                  (sid \<mapsto> session\<lparr>messages := last_n 20 (messages session
                     @ [\<lparr>role = User, content = question, timestamp = t1\<rparr>,
                        \<lparr>role = Assistant, content = answer, timestamp = t2\<rparr>])\<rparr>)\<rparr>))"
  using run
proof (cases rule: try_body_cases)
  case (intent_failed titles e)
  then show ?thesis by (simp add: is_terminal_def)
next
  case (loop_failed titles intent_result tr_l e wa)
  then show ?thesis
    using loop_io_nonterminal [OF retrieval_loop_io [OF loop_failed(2)]]
    by (simp add: is_terminal_def)
next
  case (answer_failed titles intent_result tr_l v wa wb tr_s e)
  then show ?thesis
    using loop_io_nonterminal [OF retrieval_loop_io [OF answer_failed(2)]]
      generate_answer_nonterminal [OF answer_failed(3)]
    by (simp add: is_terminal_def)
next
  case (sources_failed titles intent_result tr_l v wa wb tr_s answer e)
  then show ?thesis
    using loop_io_nonterminal [OF retrieval_loop_io [OF sources_failed(2)]]
      generate_answer_nonterminal [OF sources_failed(3)]
    by (simp add: is_terminal_def)
next
  case (completed titles intent_result tr_l v wa wb tr_s answer wc entries)
  let ?tr0 = "[Yield (AgentStreamEvent Thinking AnalysingIntent), Call (LoadParsedContent pid),
             Call (Chat (intent_request question titles (messages session) provider)), Yield (AgentStreamEvent Thinking (IntentRecognised intent_result))]
            @ tr_l @ tr_s"
  from save_history_sessions [OF completed(5)] obtain t1 t2 where
    s: "self2 = self\<lparr>sessions := (sessions self)
           (sid \<mapsto> session\<lparr>messages := last_n 20 (messages session
              @ [\<lparr>role = User, content = question, timestamp = t1\<rparr>,
                 \<lparr>role = Assistant, content = answer, timestamp = t2\<rparr>])\<rparr>)\<rparr>" by blast
  have nt: "list_all (\<lambda>x. \<not> is_terminal x) (yielded ?tr0)"
    using loop_io_nonterminal [OF retrieval_loop_io [OF completed(2)]]
      generate_answer_nonterminal [OF completed(3)]
    by (simp add: is_terminal_def)
  have ct: "concat (content_texts ?tr0) = answer"
    using loop_io_no_content [OF retrieval_loop_io [OF completed(2)]]
      generate_answer_content [OF completed(3)]
    by simp
  have "tr = ?tr0 @ [Yield (AgentStreamEvent Sources (SourceList entries)),
                         Yield (AgentStreamEvent Done (Flag True))]"
    using completed(1) by simp
  with nt ct s completed(6) show ?thesis by blast
qed

lemma resolve_session_cases [consumes 1, case_names supplied created]:
  assumes "resolve_session caps self pid sid_opt w = (sid, self1, w1)"
  obtains
    (supplied) "sid_opt = Some sid" "sid \<noteq> []" "self1 = self" "w1 = w"
  | (created) t where "sid_opt = None \<or> sid_opt = Some []"
      "self1 = self\<lparr>sessions := (sessions self)
         (sid \<mapsto> \<lparr>session_id = sid, paper_id = pid, messages = [], created_at = t\<rparr>)\<rparr>"
  using assms
  by (auto simp: resolve_session_def create_session_def split: option.splits if_splits prod.splits)

lemma chat_stream_cases [consumes 2, case_names invalid failed finished]:
  assumes run: "chat_stream caps lib top_k self pid question sid_opt provider w = (tr, self', w')"
    and res: "resolve_session caps self pid sid_opt w = (sid, self1, w1)"
  obtains
    (invalid) "tr = [Yield (AgentStreamEvent Error InvalidSession)]" "self' = self1"
  | (failed) session tr0 e where "sessions self1 sid = Some session" "paper_id session = pid"
      "try_body caps lib top_k self1 sid session pid question provider w1 = (tr0, Inl e, self', w')"
      "tr = tr0 @ [Yield (AgentStreamEvent Error (Failure e))]"
  | (finished) session where "sessions self1 sid = Some session" "paper_id session = pid"
      "try_body caps lib top_k self1 sid session pid question provider w1 = (tr, Inr (), self', w')"
proof (cases "sessions self1 sid")
  case None
  then show ?thesis using run res invalid by (simp add: chat_stream_def get_session_def)
next
  case (Some session)
  show ?thesis
  proof (cases "paper_id session = pid")
    case False
    then show ?thesis using run res Some invalid by (simp add: chat_stream_def get_session_def)
  next
    case True
    obtain tr0 r self2 w2 where tb: "try_body caps lib top_k self1 sid session pid question provider w1
        = (tr0, r, self2, w2)" by (metis prod_cases4)
    show ?thesis
    proof (cases r)
      case (Inl e)
      then show ?thesis using run res Some True tb failed [of session tr0 e]
        by (simp add: chat_stream_def get_session_def)
    next
      case (Inr u)
      then show ?thesis using run res Some True tb finished [of session]
        by (simp add: chat_stream_def get_session_def)
    qed
  qed
qed

lemma chat_stream_finished:
  assumes run: "chat_stream caps lib top_k self pid question sid_opt provider w = (tr, self', w')"
    and res: "resolve_session caps self pid sid_opt w = (sid, self1, w1)"
    and fin: "\<exists>e\<in>set (yielded tr). etype e = Done"
  obtains session tr0 entries answer t1 t2 where
    "sessions self1 sid = Some session"
    "tr = tr0 @ [Yield (AgentStreamEvent Sources (SourceList entries)),
                 Yield (AgentStreamEvent Done (Flag True))]"
    "concat (content_texts tr0) = answer"
    "self' = self1\<lparr>sessions := (sessions self1)
       (sid \<mapsto> session\<lparr>messages := last_n 20 (messages session
          @ [\<lparr>role = User, content = question, timestamp = t1\<rparr>,
             \<lparr>role = Assistant, content = answer, timestamp = t2\<rparr>])\<rparr>)\<rparr>"
  using run res
proof (cases rule: chat_stream_cases)
  case invalid
  then show ?thesis using fin by simp
next
  case (failed session tr0 e)
  from try_body_summary [OF failed(3)] have "list_all (\<lambda>x. \<not> is_terminal x) (yielded tr0)"
    by auto
  then have "\<forall>e\<in>set (yielded tr0). etype e \<noteq> Done" by (auto simp: list_all_iff is_terminal_def)
  then show ?thesis using fin failed(4) by auto
next
  case (finished session)
  from try_body_summary [OF finished(3)] that finished(1) show ?thesis by blast
qed

section \<open>Evaluating the library functions\<close>

lemma scan_once_scalar:
  "take 1 s \<noteq> [123] \<Longrightarrow> take 1 s \<noteq> [91] \<Longrightarrow> scan_once depth s = scan_scalar s"
  by (cases depth) simp_all

lemma scan_once_nested:
  "0 < depth \<Longrightarrow> scan_once depth s =
     (if take 1 s = [123] then
        (if take 1 (skip_whitespace (drop 1 s)) = [125]
         then Inr (JObj [], drop 1 (skip_whitespace (drop 1 s)))
         else parse_object_items (scan_once (depth - 1)) (skip_whitespace (drop 1 s)) [])
      else if take 1 s = [91] then
        (if take 1 (skip_whitespace (drop 1 s)) = [93]
         then Inr (JArr [], drop 1 (skip_whitespace (drop 1 s)))
         else parse_array_items (scan_once (depth - 1)) (skip_whitespace (drop 1 s)) [])
      else scan_scalar s)"
  by (cases depth) simp_all

lemmas loads_defs =
  loads_def skip_whitespace_def is_json_space_def scan_once_nested scan_scalar_def
  parse_array_items.simps parse_object_items.simps startswith_def ascii_def match_number_def
  is_digit_def digits_value_def hex_digit_def unescape_def prepend_def Let_def

lemma scan_once_too_deep:
  "depth < n \<Longrightarrow> scan_once depth (replicate n 91) = Inl RecursionError"
proof (induction depth arbitrary: n)
  case 0
  then obtain m where "n = Suc m" by (cases n) auto
  then show ?case by simp
next
  case (Suc depth)
  then obtain m where n: "n = Suc m" "depth < m"
    by (cases n) auto
  then obtain k where m: "m = Suc k" by (cases m) auto
  have s: "skip_whitespace (replicate m 91) = replicate m 91"
    unfolding m by (simp add: skip_whitespace_def is_json_space_def)
  have "parse_array_items (scan_once depth) (replicate m 91) [] = Inl RecursionError"
    by (subst parse_array_items.simps) (simp add: Suc.IH [OF n(2)])
  then show ?case using s unfolding n(1) by (simp add: m)
qed

lemma loads_too_deep: "loads 999 (replicate 1000 91) = Inl RecursionError"
proof -
  have "replicate 1000 91 = (91::nat) # replicate 999 91"
    by (simp add: replicate_Suc [symmetric] del: replicate_Suc)
  then have "skip_whitespace (replicate 1000 91) = replicate 1000 91" "take 1 (replicate 1000 91) = [91::nat]"
    by (simp_all add: skip_whitespace_def is_json_space_def)
  then show ?thesis
    by (simp add: loads_def scan_once_too_deep)
qed

lemma strip_code_fence_brackets: "strip_code_fence (replicate n 91) = replicate n 91"
proof -
  have sw: "\<not> startswith (replicate n 91) [96, 96, 96]"
    by (cases n) (auto simp: startswith_def)
  have st: "strip (replicate n 91) = replicate n 91"
    by (simp add: strip_def is_space_def)
  show ?thesis
    by (simp add: strip_code_fence_def st sw)
qed

section \<open>Runs of the example environment\<close>

lemmas example_defs =
  example_caps_def example_lib_def example_orchestrator_def fragment_def ascii_def
  chat_stream_def resolve_session_def create_session_def get_session_def try_body_def
  get_section_titles_def titles_of_def analyze_def intent_request_def last_n_def
  strip_code_fence_def strip_def startswith_def is_space_def initial_vars_def
  retrieval_loop.simps retrieval_round_def search_similar_chunks_def slice_to_def
  deduplicate_results_def keep_unseen_def format_context_def format_part_def
  evaluate_def parse_failure_evaluation_def verdict_event_def generate_answer_def
  source_of_def save_history_def not_found_answer_def unidentified_def loads_defs

lemma fun_upd_eq_iff: "(m(k := a) = m(k := b)) \<longleftrightarrow> a = b"
  by (metis fun_upd_same)

lemma example_resolved:
  "resolve_session example_caps (example_orchestrator 3) (ascii ''p1'') (Some (ascii ''s1'')) 0
     = ([115, 49], example_orchestrator 3, 0)"
  by (simp add: resolve_session_def ascii_def)

lemma example_failed_run:
  "chat_stream example_caps example_lib 5 (example_orchestrator 3) (ascii ''p1'') (ascii ''x'')
     (Some (ascii ''s1'')) None 0
   = ([Yield (AgentStreamEvent Thinking AnalysingIntent),
       Call (LoadParsedContent [112, 49]),
       Call (Chat (IntentRequest [120] [] [] None)),
       Yield (AgentStreamEvent Thinking (IntentRecognised
         \<lparr>category = GENERAL, target_sections = [], intent_keywords = [[120]],
          reasoning = [35299, 26512, 22833, 36133, 65292, 20351, 29992, 40664, 35748, 35774, 32622]\<rparr>)),
       Yield (AgentStreamEvent Retrieval (RoundStarted 1 [[120]])),
       Call (VectorSearch [120] 5 (Some [112, 49])),
       Yield (AgentStreamEvent Error (Failure (CapabilityError [100, 111, 119, 110])))],
      example_orchestrator 3, 3)"
  by (simp add: example_defs)

lemma example_finished_run:
  "chat_stream example_caps example_lib 5 (example_orchestrator 3) (ascii ''p1'') (ascii ''q'')
     (Some (ascii ''s1'')) None 0
   = ([Yield (AgentStreamEvent Thinking AnalysingIntent),
       Call (LoadParsedContent [112, 49]),
       Call (Chat (IntentRequest [113] [] [] None)),
       Yield (AgentStreamEvent Thinking (IntentRecognised
         \<lparr>category = GENERAL, target_sections = [], intent_keywords = [[113]],
          reasoning = [35299, 26512, 22833, 36133, 65292, 20351, 29992, 40664, 35748, 35774, 32622]\<rparr>)),
       Yield (AgentStreamEvent Retrieval (RoundStarted 1 [[113]])),
       Call (VectorSearch [113] 5 (Some [112, 49])),
       Yield (AgentStreamEvent Retrieval (FragmentsFound 2)),
       Yield (AgentStreamEvent Thinking EvaluatingCompleteness),
       Call (Chat (EvaluationRequest [113]
         [\<lparr>part_index = 1, part_section = Some [73, 110, 116, 114, 111],
           part_score = 1 / 2, part_text = Some [116, 101, 120, 116]\<rparr>,
          \<lparr>part_index = 2, part_section = Some [73, 110, 116, 114, 111],
           part_score = 3 / 4, part_text = Some [116, 101, 120, 116]\<rparr>] None)),
       Yield (AgentStreamEvent Evaluation (InfoSufficient
         [35299, 26512, 22833, 36133, 65292, 40664, 35748, 20449, 24687, 20805, 36275])),
       Call (ChatStream (AnswerRequest
         [\<lparr>part_index = 1, part_section = Some [73, 110, 116, 114, 111],
           part_score = 1 / 2, part_text = Some [116, 101, 120, 116]\<rparr>,
          \<lparr>part_index = 2, part_section = Some [73, 110, 116, 114, 111],
           part_score = 3 / 4, part_text = Some [116, 101, 120, 116]\<rparr>] [113] [] None)),
       Yield (AgentStreamEvent Content (Chunk [72, 105])),
       Yield (AgentStreamEvent Content (Chunk [33])),
       Yield (AgentStreamEvent Sources (SourceList
         [\<lparr>src_chunk_id = Some [99, 49], src_section = Some [73, 110, 116, 114, 111],
           src_score = Some (1 / 2), text_preview = [116, 101, 120, 116, 46, 46, 46]\<rparr>,
          \<lparr>src_chunk_id = Some [99, 50], src_section = Some [73, 110, 116, 114, 111],
           src_score = Some (3 / 4), text_preview = [116, 101, 120, 116, 46, 46, 46]\<rparr>])),
       Yield (AgentStreamEvent Done (Flag True))],
      (example_orchestrator 3)\<lparr>sessions := (sessions (example_orchestrator 3))
         ([115, 49] \<mapsto> \<lparr>session_id = [115, 49], paper_id = [112, 49],
            messages = [\<lparr>role = User, content = [113], timestamp = 5\<rparr>,
                        \<lparr>role = Assistant, content = [72, 105, 33], timestamp = 6\<rparr>],
            created_at = 0\<rparr>)\<rparr>,
      7)"
  by (simp add: example_defs fun_upd_eq_iff)

section \<open>Parse failures\<close>


lemma example_too_deep:
  "json_loads example_lib (strip_code_fence (replicate 1000 91)) = Inl RecursionError"
  by (simp add: example_lib_def strip_code_fence_brackets loads_too_deep)



text \<open>
  Counterexample to claim C7 as stated: an output of 1000 opening brackets is not JSON,
  yet \<open>json.loads\<close> raises \<open>RecursionError\<close> on it, which is no \<open>JSONDecodeError\<close>, and
  \<open>analyze\<close> raises it again in place of returning the default intent.
\<close>

theorem analyze_deep_nesting_counterexample:
  "llm_chat example_caps (intent_request (replicate 1000 91) [] [] None) 0
     = (Inr (replicate 1000 91), 1)
   \<and> json_loads example_lib (strip_code_fence (replicate 1000 91)) = Inl RecursionError
   \<and> analyze example_caps example_lib (replicate 1000 91) [] [] None 0
     = ([Call (Chat (IntentRequest (replicate 1000 91) [] [] None))], Inl RecursionError, 1)"
proof -
  have "llm_chat example_caps (intent_request (replicate 1000 91) [] [] None) 0
     = (Inr (replicate 1000 91), 1)"
    by (simp add: example_caps_def intent_request_def)
  then show ?thesis
    using example_too_deep by (simp add: analyze_def intent_request_def last_n_def)
qed





section \<open>Terminal events and the session history\<close>

text \<open>
  Claim C1. An exchange run by \<open>chat_stream\<close> and consumed to its end yields exactly
  one terminal event, "done" or "error", as its last event; and when that event is "error"
  no message was committed: with a session id supplied the orchestrator, and with it
  every session history, is what it was before the exchange, and with none supplied the
  only change is the session the exchange created, whose history is empty.
\<close>

theorem chat_stream_terminal_event:
  assumes run: "chat_stream caps lib top_k self pid question sid_opt provider w = (tr, self', w')"
  shows "\<exists>evs e. yielded tr = evs @ [e] \<and> list_all (\<lambda>x. \<not> is_terminal x) evs \<and> is_terminal e
           \<and> (etype e = Error \<longrightarrow>
                 (\<forall>s. sid_opt = Some s \<and> s \<noteq> [] \<longrightarrow> self' = self)
               \<and> (sid_opt = None \<or> sid_opt = Some [] \<longrightarrow>
                    (\<exists>sid t. self' = self\<lparr>sessions := (sessions self)
                       (sid \<mapsto> \<lparr>session_id = sid, paper_id = pid, messages = [],
                                 created_at = t\<rparr>)\<rparr>)))"
proof -
  obtain sid self1 w1 where res: "resolve_session caps self pid sid_opt w = (sid, self1, w1)"
    by (metis prod_cases3)
  have unchanged: "(\<forall>s. sid_opt = Some s \<and> s \<noteq> [] \<longrightarrow> self1 = self)
               \<and> (sid_opt = None \<or> sid_opt = Some [] \<longrightarrow>
                    (\<exists>sid t. self1 = self\<lparr>sessions := (sessions self)
                       (sid \<mapsto> \<lparr>session_id = sid, paper_id = pid, messages = [],
                                 created_at = t\<rparr>)\<rparr>))"
    using res by (cases rule: resolve_session_cases) auto
  from run res show ?thesis
  proof (cases rule: chat_stream_cases)
    case invalid
    have "yielded tr = [] @ [AgentStreamEvent Error InvalidSession]" using invalid by simp
    then show ?thesis using unchanged invalid(2) by (fastforce simp: is_terminal_def)
  next
    case (failed session tr0 e)
    from try_body_summary [OF failed(3)] have s: "self' = self1"
      "list_all (\<lambda>x. \<not> is_terminal x) (yielded tr0)" by auto
    have "yielded tr = yielded tr0 @ [AgentStreamEvent Error (Failure e)]" using failed(4) by simp
    then show ?thesis using unchanged s by (fastforce simp: is_terminal_def)
  next
    case (finished session)
    from try_body_summary [OF finished(3)] obtain tr0 entries where
      t: "tr = tr0 @ [Yield (AgentStreamEvent Sources (SourceList entries)),
                         Yield (AgentStreamEvent Done (Flag True))]"
         "list_all (\<lambda>x. \<not> is_terminal x) (yielded tr0)" by auto
    have "yielded tr = (yielded tr0 @ [AgentStreamEvent Sources (SourceList entries)])
            @ [AgentStreamEvent Done (Flag True)]" using t(1) by simp
    moreover have "list_all (\<lambda>x. \<not> is_terminal x)
        (yielded tr0 @ [AgentStreamEvent Sources (SourceList entries)])"
      using t(2) by (simp add: is_terminal_def)
    ultimately show ?thesis by (fastforce simp: is_terminal_def)
  qed
qed

theorem chat_stream_terminal_event_witness:
  "\<exists>evs e. yielded [Yield (AgentStreamEvent Thinking AnalysingIntent),
       Call (LoadParsedContent [112, 49]),
       Call (Chat (IntentRequest [120] [] [] None)),
       Yield (AgentStreamEvent Thinking (IntentRecognised
         \<lparr>category = GENERAL, target_sections = [], intent_keywords = [[120]],
          reasoning = [35299, 26512, 22833, 36133, 65292, 20351, 29992, 40664, 35748, 35774, 32622]\<rparr>)),
       Yield (AgentStreamEvent Retrieval (RoundStarted 1 [[120]])),
       Call (VectorSearch [120] 5 (Some [112, 49])),
       Yield (AgentStreamEvent Error (Failure (CapabilityError [100, 111, 119, 110])))] = evs @ [e]
     \<and> list_all (\<lambda>x. \<not> is_terminal x) evs \<and> is_terminal e
     \<and> (etype e = Error \<longrightarrow>
           (\<forall>s. Some (ascii ''s1'') = Some s \<and> s \<noteq> [] \<longrightarrow> example_orchestrator 3 = example_orchestrator 3)
         \<and> (Some (ascii ''s1'') = None \<or> Some (ascii ''s1'') = Some [] \<longrightarrow>
              (\<exists>sid t. example_orchestrator 3 = (example_orchestrator 3)\<lparr>sessions := (sessions (example_orchestrator 3))
                 (sid \<mapsto> \<lparr>session_id = sid, paper_id = ascii ''p1'', messages = [],
                           created_at = t\<rparr>)\<rparr>)))"
  by (rule chat_stream_terminal_event [OF example_failed_run])

text \<open>
  Claim C2. When an exchange ends with a "done" event, the texts of its "content" events,
  concatenated in the order they were yielded, are the content of the assistant message
  that the exchange appended last to the session's history.
\<close>

theorem chat_stream_content_is_answer:
  assumes run: "chat_stream caps lib top_k self pid question sid_opt provider w = (tr, self', w')"
    and res: "resolve_session caps self pid sid_opt w = (sid, self1, w1)"
    and fin: "\<exists>e\<in>set (yielded tr). etype e = Done"
  shows "\<exists>h. sessions self' sid = Some h \<and> messages h \<noteq> []
           \<and> role (last (messages h)) = Assistant
           \<and> content (last (messages h)) = concat (content_texts tr)"
  using run res fin
proof (cases rule: chat_stream_finished)
  case (1 session tr0 entries answer t1 t2)
  let ?app = "messages session
          @ [\<lparr>role = User, content = question, timestamp = t1\<rparr>,
             \<lparr>role = Assistant, content = answer, timestamp = t2\<rparr>]"
  have ne: "last_n 20 ?app \<noteq> []" by (simp add: last_n_def)
  have "last (last_n 20 ?app) = last ?app"
    unfolding last_n_def by (rule last_drop) simp
  then have l: "last (last_n 20 ?app) = \<lparr>role = Assistant, content = answer, timestamp = t2\<rparr>"
    by simp
  have "concat (content_texts tr) = answer" using 1(2,3) by simp
  then show ?thesis using 1(4) ne l by simp
qed

theorem chat_stream_content_is_answer_witness:
  "\<exists>h. sessions ((example_orchestrator 3)\<lparr>sessions := (sessions (example_orchestrator 3))
         ([115, 49] \<mapsto> \<lparr>session_id = [115, 49], paper_id = [112, 49],
            messages = [\<lparr>role = User, content = [113], timestamp = 5\<rparr>,
                        \<lparr>role = Assistant, content = [72, 105, 33], timestamp = 6\<rparr>],
            created_at = 0\<rparr>)\<rparr>) [115, 49] = Some h
     \<and> messages h \<noteq> [] \<and> role (last (messages h)) = Assistant
     \<and> content (last (messages h)) = [72, 105, 33]"
  using chat_stream_content_is_answer [OF example_finished_run example_resolved]
  by (simp add: content_texts_def)

lemma replicate_nine: "replicate 9 x = [x, x, x, x, x, x, x, x, x]"
  by (simp add: numeral_eq_Suc)

lemma example_long_run:
  "chat_stream example_caps example_lib 5 example_long_history (ascii ''p1'') (ascii ''n'')
     (Some (ascii ''s1'')) None 0
   = ([Yield (AgentStreamEvent Thinking AnalysingIntent),
       Call (LoadParsedContent [112, 49]),
       Call (Chat (IntentRequest [110] []
         [(User, [109]), (Assistant, [97]), (User, [109]), (Assistant, [97]),
          (User, [109]), (Assistant, [97])] None)),
       Yield (AgentStreamEvent Thinking (IntentRecognised
         \<lparr>category = GENERAL, target_sections = [], intent_keywords = [[110]],
          reasoning = [35299, 26512, 22833, 36133, 65292, 20351, 29992, 40664, 35748, 35774, 32622]\<rparr>)),
       Yield (AgentStreamEvent Retrieval (RoundStarted 1 [[110]])),
       Call (VectorSearch [110] 5 (Some [112, 49])),
       Yield (AgentStreamEvent Retrieval (FragmentsFound 0)),
       Yield (AgentStreamEvent Evaluation NothingFound),
       Yield (AgentStreamEvent Content (Chunk not_found_answer)),
       Yield (AgentStreamEvent Sources (SourceList [])),
       Yield (AgentStreamEvent Done (Flag True))],
      example_long_history\<lparr>sessions := (sessions example_long_history)
         ([115, 49] \<mapsto> \<lparr>session_id = [115, 49], paper_id = [112, 49],
            messages = concat (replicate 9
                [\<lparr>role = User, content = [109], timestamp = 0\<rparr>,
                 \<lparr>role = Assistant, content = [97], timestamp = 0\<rparr>])
              @ [\<lparr>role = User, content = [110], timestamp = 3\<rparr>,
                 \<lparr>role = Assistant, content = not_found_answer, timestamp = 4\<rparr>],
            created_at = 0\<rparr>)\<rparr>,
      5)"
  by (simp add: example_long_history_def example_defs fun_upd_eq_iff replicate_nine)

lemma example_long_resolved:
  "resolve_session example_caps example_long_history (ascii ''p1'') (Some (ascii ''s1'')) 0
     = ([115, 49], example_long_history, 0)"
  by (simp add: resolve_session_def ascii_def)

text \<open>
  Claim C6. An exchange that ends with "done" has appended the user message and then the
  assistant message to the session's history and kept the last 20 messages of the
  result, dropping the oldest: the history then holds at most 20 messages.
\<close>

theorem chat_stream_history_bound:
  assumes run: "chat_stream caps lib top_k self pid question sid_opt provider w = (tr, self', w')"
    and res: "resolve_session caps self pid sid_opt w = (sid, self1, w1)"
    and fin: "\<exists>e\<in>set (yielded tr). etype e = Done"
  shows "\<exists>session h answer t1 t2. sessions self1 sid = Some session \<and> sessions self' sid = Some h
           \<and> messages h = last_n 20 (messages session
                @ [\<lparr>role = User, content = question, timestamp = t1\<rparr>,
                   \<lparr>role = Assistant, content = answer, timestamp = t2\<rparr>])
           \<and> length (messages h) \<le> 20"
  using run res fin
proof (cases rule: chat_stream_finished)
  case (1 session tr0 entries answer t1 t2)
  let ?app = "messages session
          @ [\<lparr>role = User, content = question, timestamp = t1\<rparr>,
             \<lparr>role = Assistant, content = answer, timestamp = t2\<rparr>]"
  have "length (last_n 20 ?app) \<le> 20" by (simp add: last_n_def)
  then show ?thesis using 1(1,4) by (intro exI [of _ session] exI [of _ "session\<lparr>messages := last_n 20 ?app\<rparr>"] exI [of _ answer] exI [of _ t1] exI [of _ t2]) simp
qed

theorem chat_stream_history_bound_witness:
  "\<exists>session h answer t1 t2.
      sessions example_long_history [115, 49] = Some session \<and> length (messages session) = 20
    \<and> sessions (fst (snd (chat_stream example_caps example_lib 5 example_long_history
          (ascii ''p1'') (ascii ''n'') (Some (ascii ''s1'')) None 0))) [115, 49] = Some h
    \<and> messages h = last_n 20 (messages session
         @ [\<lparr>role = User, content = ascii ''n'', timestamp = t1\<rparr>,
            \<lparr>role = Assistant, content = answer, timestamp = t2\<rparr>])
    \<and> messages h = drop 2 (messages session)
         @ [\<lparr>role = User, content = ascii ''n'', timestamp = t1\<rparr>,
            \<lparr>role = Assistant, content = answer, timestamp = t2\<rparr>]
    \<and> length (messages h) = 20"
proof -
  have d: "\<exists>e\<in>set (yielded (fst (chat_stream example_caps example_lib 5 example_long_history
          (ascii ''p1'') (ascii ''n'') (Some (ascii ''s1'')) None 0))). etype e = Done"
    by (simp only: example_long_run fst_conv) simp
  obtain tr self' w' where run: "chat_stream example_caps example_lib 5 example_long_history
          (ascii ''p1'') (ascii ''n'') (Some (ascii ''s1'')) None 0 = (tr, self', w')"
    by (metis prod_cases3)
  from chat_stream_history_bound [OF run example_long_resolved] d run
  obtain session h answer t1 t2 where
    h: "sessions example_long_history [115, 49] = Some session" "sessions self' [115, 49] = Some h"
       "messages h = last_n 20 (messages session
         @ [\<lparr>role = User, content = ascii ''n'', timestamp = t1\<rparr>,
            \<lparr>role = Assistant, content = answer, timestamp = t2\<rparr>])"
    by auto
  from h(1) have l: "length (messages session) = 20"
    by (auto simp: example_long_history_def ascii_def replicate_nine)
  then have "length (messages h) = 20"
    "messages h = drop 2 (messages session)
         @ [\<lparr>role = User, content = ascii ''n'', timestamp = t1\<rparr>,
            \<lparr>role = Assistant, content = answer, timestamp = t2\<rparr>]"
    using h(3) by (simp_all add: last_n_def)
  with h l run show ?thesis
    by (intro exI [of _ session] exI [of _ h] exI [of _ answer] exI [of _ t1] exI [of _ t2]) simp
qed

section \<open>The accumulated evidence\<close>

text \<open>
  The states of the retrieval loop are those reached from its initial variables by
  \<open>next_round\<close>; the state in which \<open>retrieval_loop\<close> ends is one of them.
\<close>

lemma next_round_results:
  assumes "next_round caps lib top_k max_rounds pid question intent_result provider (v, w) = Some (v', w')"
  shows "\<exists>extra. all_results v' = deduplicate_results (all_results v @ extra)"
proof -
  obtain tr r w1 where rr: "retrieval_round caps lib top_k max_rounds pid question intent_result
      provider (current_round v + 1) (all_results v) (evaluation_result v) w = (tr, r, w1)"
    by (metis prod_cases3)
  with assms obtain ended where "r = Inr ended" "v' = after_round v ended"
    by (auto simp: next_round_def split: if_splits sum.splits)
  with rr retrieval_round_results [of caps lib top_k max_rounds pid question intent_result provider
      "current_round v + 1" "all_results v" "evaluation_result v" w tr ended w1 v]
  show ?thesis by simp
qed

lemma reachable_evidence_stable:
  assumes "rtranclp (\<lambda>s s'. next_round caps lib top_k max_rounds pid question intent_result provider s
             = Some s') (initial_vars, w0) s"
  shows "fresh {} (all_results (fst s)) = all_results (fst s)"
  using assms
proof (induction rule: rtranclp_induct)
  case base
  then show ?case by (simp add: initial_vars_def)
next
  case (step y z)
  obtain v w where y: "y = (v, w)" by (cases y)
  obtain v' w' where z: "z = (v', w')" by (cases z)
  have "next_round caps lib top_k max_rounds pid question intent_result provider (v, w)
      = Some (v', w')" using step(2) y z by simp
  from next_round_results [OF this] obtain extra where
    "all_results v' = deduplicate_results (all_results v @ extra)" by blast
  then show ?case using z by (simp add: deduplicate_results_fresh fresh_idem)
qed

lemma retrieval_loop_reaches:
  assumes "retrieval_loop caps lib top_k max_rounds pid question intent_result provider v w
             = (tr, res, w')"
  shows "\<forall>v'. res = Inr v' \<longrightarrow>
           rtranclp (\<lambda>s s'. next_round caps lib top_k max_rounds pid question intent_result provider s
             = Some s') (v, w) (v', w')"
  using assms
proof (induction rule: retrieval_loop_induct)
  case (exit v w)
  then show ?case by simp
next
  case (error v w tr e w1)
  then show ?case by simp
next
  case (break v w tr results w1)
  then have "next_round caps lib top_k max_rounds pid question intent_result provider (v, w)
      = Some (after_round v (Break results), w1)"
    by (simp add: next_round_def)
  then show ?case by auto
next
  case (step v w tr results ev w1 tr' res w2)
  then have n: "next_round caps lib top_k max_rounds pid question intent_result provider (v, w)
      = Some (after_round v (Evaluated results ev), w1)"
    by (simp add: next_round_def)
  show ?case
  proof (intro allI impI)
    fix v' assume "res = Inr v'"
    with step.IH have "rtranclp (\<lambda>s s'. next_round caps lib top_k max_rounds pid question
        intent_result provider s = Some s') (after_round v (Evaluated results ev), w1) (v', w2)"
      by simp
    with n show "rtranclp (\<lambda>s s'. next_round caps lib top_k max_rounds pid question
        intent_result provider s = Some s') (v, w) (v', w2)"
      by (simp add: converse_rtranclp_into_rtranclp)
  qed
qed

lemma example_first_round:
  "next_round example_caps example_lib 5 3 (ascii ''p1'') (ascii ''q'')
     \<lparr>category = GENERAL, target_sections = [], intent_keywords = [[113]], reasoning = []\<rparr> None
     (initial_vars, 0)
   = Some (\<lparr>all_results = [fragment (ascii ''c1'') (1 / 2), fragment (ascii ''c2'') (3 / 4)],
            current_round = 1, sufficient = True,
            evaluation_result = Some parse_failure_evaluation\<rparr>, 2)"
  by (simp add: next_round_def example_defs)

text \<open>
  Claim C3. In every state the retrieval loop reaches, whatever the rounds before
  returned, the accumulated evidence holds no two results with the same chunk id (each
  has a non-empty one), and a further round only extends it: the evidence before the
  round is a prefix of the evidence after it, so nothing is removed and the number of
  results does not decrease.
\<close>

theorem accumulated_evidence_invariant:
  assumes "rtranclp (\<lambda>s s'. next_round caps lib top_k max_rounds pid question intent_result provider s
             = Some s') (initial_vars, w0) (v, w)"
  shows "distinct (map chunk_id (all_results v))
       \<and> (\<forall>r\<in>set (all_results v). \<exists>c. chunk_id r = Val c \<and> c \<noteq> [])
       \<and> (\<forall>v' w'. next_round caps lib top_k max_rounds pid question intent_result provider (v, w)
                     = Some (v', w')
             \<longrightarrow> prefix (all_results v) (all_results v')
                 \<and> length (all_results v) \<le> length (all_results v'))"
proof -
  have st: "fresh {} (all_results v) = all_results v"
    using reachable_evidence_stable [OF assms] by simp
  have d: "distinct (map chunk_id (all_results v))"
    using fresh_distinct [of "{}" "all_results v"] st by simp
  have i: "\<forall>r\<in>set (all_results v). \<exists>c. chunk_id r = Val c \<and> c \<noteq> []"
    using fresh_has_id [of _ "{}" "all_results v"] st by auto
  have p: "prefix (all_results v) (all_results v') \<and> length (all_results v) \<le> length (all_results v')"
    if "next_round caps lib top_k max_rounds pid question intent_result provider (v, w) = Some (v', w')"
    for v' w'
  proof -
    from next_round_results [OF that] obtain extra where
      "all_results v' = deduplicate_results (all_results v @ extra)" by blast
    then have "prefix (all_results v) (all_results v')"
      using deduplicate_results_extends [OF st] by simp
    then show ?thesis by (simp add: prefix_length_le)
  qed
  from d i p show ?thesis by blast
qed

theorem accumulated_evidence_invariant_witness:
  "rtranclp (\<lambda>s s'. next_round example_caps example_lib 5 3 (ascii ''p1'') (ascii ''q'')
       \<lparr>category = GENERAL, target_sections = [], intent_keywords = [[113]], reasoning = []\<rparr> None s
       = Some s') (initial_vars, 0)
     (\<lparr>all_results = [fragment (ascii ''c1'') (1 / 2), fragment (ascii ''c2'') (3 / 4)],
       current_round = 1, sufficient = True,
       evaluation_result = Some parse_failure_evaluation\<rparr>, 2)
   \<and> distinct (map chunk_id [fragment (ascii ''c1'') (1 / 2), fragment (ascii ''c2'') (3 / 4)])"
proof -
  have r: "rtranclp (\<lambda>s s'. next_round example_caps example_lib 5 3 (ascii ''p1'') (ascii ''q'')
       \<lparr>category = GENERAL, target_sections = [], intent_keywords = [[113]], reasoning = []\<rparr> None s
       = Some s') (initial_vars, 0)
     (\<lparr>all_results = [fragment (ascii ''c1'') (1 / 2), fragment (ascii ''c2'') (3 / 4)],
       current_round = 1, sufficient = True,
       evaluation_result = Some parse_failure_evaluation\<rparr>, 2)"
    using example_first_round by (rule r_into_rtranclp)
  from r accumulated_evidence_invariant [OF r] show ?thesis by simp
qed


section \<open>The path without evidence\<close>

lemma retrieval_round_nothing_found:
  assumes run: "retrieval_round caps lib top_k max_rounds pid question intent_result provider
                  rnd found prev w = (tr, res, w')"
    and nf: "Yield (AgentStreamEvent Evaluation NothingFound) \<in> set tr"
  shows "res = Inr (Break []) \<and> (\<exists>extra. deduplicate_results (found @ extra) = [])
       \<and> (\<exists>ks n. n \<le> 3 \<and> tr = Yield (AgentStreamEvent Retrieval (RoundStarted rnd ks))
              # map (\<lambda>k. Call (VectorSearch k top_k (Some pid))) (take n ks)
              @ [Yield (AgentStreamEvent Retrieval (FragmentsFound 0)),
                 Yield (AgentStreamEvent Evaluation NothingFound)])"
  using run
proof (cases rule: retrieval_round_cases)
  case unbound
  then show ?thesis using nf by simp
next
  case (search_failed ks n e)
  then show ?thesis using nf by auto
next
  case (found_nothing ks n extra)
  then show ?thesis by blast
next
  case (failed ks n extra e tail)
  then show ?thesis using nf by auto
next
  case (evaluated ks n extra ctx ev)
  then show ?thesis using nf by (auto simp: verdict_event_def split: if_splits)
qed

lemma retrieval_loop_keeps_evidence:
  assumes "retrieval_loop caps lib top_k max_rounds pid question intent_result provider v w
             = (tr, res, w')"
  shows "fresh {} (all_results v) = all_results v \<longrightarrow> all_results v \<noteq> [] \<longrightarrow>
           Yield (AgentStreamEvent Evaluation NothingFound) \<notin> set tr"
  using assms
proof (induction rule: retrieval_loop_induct)
  case (exit v w)
  then show ?case by simp
next
  case (error v w tr e w1)
  then show ?case using retrieval_round_nothing_found [OF error(3)] by auto
next
  case (break v w tr results w1)
  show ?case
  proof (intro impI notI)
    assume st: "fresh {} (all_results v) = all_results v" and ne: "all_results v \<noteq> []"
      and nf: "Yield (AgentStreamEvent Evaluation NothingFound) \<in> set tr"
    from retrieval_round_nothing_found [OF break(3) nf] obtain extra where
      "deduplicate_results (all_results v @ extra) = []" by blast
    with deduplicate_results_extends [OF st, of extra] ne show False by simp
  qed
next
  case (step v w tr results ev w1 tr' res w2)
  show ?case
  proof (intro impI notI)
    assume st: "fresh {} (all_results v) = all_results v" and ne: "all_results v \<noteq> []"
      and nf: "Yield (AgentStreamEvent Evaluation NothingFound) \<in> set (tr @ tr')"
    have "Yield (AgentStreamEvent Evaluation NothingFound) \<notin> set tr"
      using retrieval_round_nothing_found [OF step(3)] by auto
    with nf have nf': "Yield (AgentStreamEvent Evaluation NothingFound) \<in> set tr'" by simp
    from retrieval_round_results [OF step(3), of v] obtain extra where
      m: "all_results (after_round v (Evaluated results ev))
            = deduplicate_results (all_results v @ extra)" by blast
    have "fresh {} (all_results (after_round v (Evaluated results ev)))
            = all_results (after_round v (Evaluated results ev))"
      unfolding m by (simp add: deduplicate_results_fresh fresh_idem)
    moreover have "all_results (after_round v (Evaluated results ev)) \<noteq> []"
      unfolding m using deduplicate_results_extends [OF st, of extra] ne by auto
    ultimately show False using step.IH nf' by simp
  qed
qed

lemma retrieval_loop_nothing_found:
  assumes run: "retrieval_loop caps lib top_k max_rounds pid question intent_result provider v w
             = (tr, res, w')"
  shows "fresh {} (all_results v) = all_results v \<longrightarrow>
         Yield (AgentStreamEvent Evaluation NothingFound) \<in> set tr \<longrightarrow>
           (\<exists>ks n v'. n \<le> 3 \<and> tr = Yield (AgentStreamEvent Retrieval (RoundStarted (current_round v + 1) ks))
              # map (\<lambda>k. Call (VectorSearch k top_k (Some pid))) (take n ks)
              @ [Yield (AgentStreamEvent Retrieval (FragmentsFound 0)),
                 Yield (AgentStreamEvent Evaluation NothingFound)]
             \<and> res = Inr v' \<and> all_results v' = [])"
  using run
proof (induction rule: retrieval_loop_induct)
  case (exit v w)
  then show ?case by simp
next
  case (error v w tr e w1)
  then show ?case using retrieval_round_nothing_found [OF error(3)] by auto
next
  case (break v w tr results w1)
  show ?case
  proof (intro impI)
    assume nf: "Yield (AgentStreamEvent Evaluation NothingFound) \<in> set tr"
    from retrieval_round_nothing_found [OF break(3) nf] show
      "\<exists>ks n v'. n \<le> 3 \<and> tr = Yield (AgentStreamEvent Retrieval (RoundStarted (current_round v + 1) ks))
              # map (\<lambda>k. Call (VectorSearch k top_k (Some pid))) (take n ks)
              @ [Yield (AgentStreamEvent Retrieval (FragmentsFound 0)),
                 Yield (AgentStreamEvent Evaluation NothingFound)]
             \<and> Inr (after_round v (Break results)) = Inr v' \<and> all_results v' = []"
      by auto
  qed
next
  case (step v w tr results ev w1 tr' res w2)
  show ?case
  proof (intro impI)
    assume st: "fresh {} (all_results v) = all_results v"
      and nf: "Yield (AgentStreamEvent Evaluation NothingFound) \<in> set (tr @ tr')"
    have "Yield (AgentStreamEvent Evaluation NothingFound) \<notin> set tr"
      using retrieval_round_nothing_found [OF step(3)] by auto
    with nf have nf': "Yield (AgentStreamEvent Evaluation NothingFound) \<in> set tr'" by simp
    from step(3) obtain extra where
      m: "results = deduplicate_results (all_results v @ extra)" "results \<noteq> []"
      by (cases rule: retrieval_round_cases) auto
    have "fresh {} (all_results (after_round v (Evaluated results ev)))
            = all_results (after_round v (Evaluated results ev))"
      using m by (simp add: deduplicate_results_fresh fresh_idem)
    moreover have "all_results (after_round v (Evaluated results ev)) \<noteq> []" using m by simp
    ultimately have False using retrieval_loop_keeps_evidence [OF step(4)] nf' by simp
    then show "\<exists>ks n v'. n \<le> 3 \<and> tr @ tr' = Yield (AgentStreamEvent Retrieval (RoundStarted (current_round v + 1) ks))
              # map (\<lambda>k. Call (VectorSearch k top_k (Some pid))) (take n ks)
              @ [Yield (AgentStreamEvent Retrieval (FragmentsFound 0)),
                 Yield (AgentStreamEvent Evaluation NothingFound)]
             \<and> res = Inr v' \<and> all_results v' = []" ..
  qed
qed

lemma no_calls_in_searches [simp]:
  "\<not> list_ex is_evaluation_call (map (\<lambda>k. Call (VectorSearch k top_k p)) ks)"
  "\<not> list_ex is_stream_call (map (\<lambda>k. Call (VectorSearch k top_k p)) ks)"
  by (induction ks) simp_all

lemma not_evaluation_intent_request [simp]:
  "\<not> is_evaluation_call (Call (Chat (intent_request q t h p)))"
  by (simp add: intent_request_def)

lemma example_empty_run:
  "chat_stream example_caps example_lib 5 (example_orchestrator 3) (ascii ''p1'') (ascii ''n'')
     (Some (ascii ''s1'')) None 0
   = ([Yield (AgentStreamEvent Thinking AnalysingIntent),
       Call (LoadParsedContent [112, 49]),
       Call (Chat (IntentRequest [110] [] [] None)),
       Yield (AgentStreamEvent Thinking (IntentRecognised
         \<lparr>category = GENERAL, target_sections = [], intent_keywords = [[110]],
          reasoning = [35299, 26512, 22833, 36133, 65292, 20351, 29992, 40664, 35748, 35774, 32622]\<rparr>)),
       Yield (AgentStreamEvent Retrieval (RoundStarted 1 [[110]])),
       Call (VectorSearch [110] 5 (Some [112, 49])),
       Yield (AgentStreamEvent Retrieval (FragmentsFound 0)),
       Yield (AgentStreamEvent Evaluation NothingFound),
       Yield (AgentStreamEvent Content (Chunk not_found_answer)),
       Yield (AgentStreamEvent Sources (SourceList [])),
       Yield (AgentStreamEvent Done (Flag True))],
      (example_orchestrator 3)\<lparr>sessions := (sessions (example_orchestrator 3))
         ([115, 49] \<mapsto> \<lparr>session_id = [115, 49], paper_id = [112, 49],
            messages = [\<lparr>role = User, content = [110], timestamp = 3\<rparr>,
                        \<lparr>role = Assistant, content = not_found_answer, timestamp = 4\<rparr>],
            created_at = 0\<rparr>)\<rparr>,
      5)"
  by (simp add: example_defs fun_upd_eq_iff)

text \<open>
  Claim C5. When a round leaves the accumulated evidence empty (the event "nothing
  retrieved" is yielded), the exchange makes no evaluation call and no call of the
  streaming text generation; right after that event it yields the fixed answer as its
  only content, then a "sources" event with the empty list, then "done"; and the
  question and the fixed answer are committed to the session's history.
\<close>

theorem empty_evidence_path:
  assumes run: "chat_stream caps lib top_k self pid question sid_opt provider w = (tr, self', w')"
    and res: "resolve_session caps self pid sid_opt w = (sid, self1, w1)"
    and nf: "Yield (AgentStreamEvent Evaluation NothingFound) \<in> set tr"
  shows "\<not> list_ex is_evaluation_call tr \<and> \<not> list_ex is_stream_call tr
       \<and> (\<exists>tr0. tr = tr0 @ [Yield (AgentStreamEvent Evaluation NothingFound),
                             Yield (AgentStreamEvent Content (Chunk not_found_answer)),
                             Yield (AgentStreamEvent Sources (SourceList [])),
                             Yield (AgentStreamEvent Done (Flag True))])
       \<and> (\<exists>session t1 t2. sessions self1 sid = Some session
             \<and> sessions self' sid = Some (session\<lparr>messages := last_n 20 (messages session
                  @ [\<lparr>role = User, content = question, timestamp = t1\<rparr>,
                     \<lparr>role = Assistant, content = not_found_answer, timestamp = t2\<rparr>])\<rparr>))"
proof -
  have init: "fresh {} (all_results initial_vars) = all_results initial_vars"
    by (simp add: initial_vars_def)
  have in_answer: "Yield (AgentStreamEvent Evaluation NothingFound) \<notin> set tr_s"
    if "generate_answer caps session question provider found wb = (tr_s, r, wc)"
    for session found wb tr_s r wc
    using that by (cases rule: generate_answer_cases) auto
  have key: "\<not> list_ex is_evaluation_call t \<and> \<not> list_ex is_stream_call t
       \<and> (\<exists>tr0. t = tr0 @ [Yield (AgentStreamEvent Evaluation NothingFound),
                             Yield (AgentStreamEvent Content (Chunk not_found_answer)),
                             Yield (AgentStreamEvent Sources (SourceList [])),
                             Yield (AgentStreamEvent Done (Flag True))])
       \<and> r = Inr ()
       \<and> (\<exists>t1 t2. s2 = self1\<lparr>sessions := (sessions self1)
             (sid \<mapsto> session\<lparr>messages := last_n 20 (messages session
                  @ [\<lparr>role = User, content = question, timestamp = t1\<rparr>,
                     \<lparr>role = Assistant, content = not_found_answer, timestamp = t2\<rparr>])\<rparr>)\<rparr>)"
    if tb: "try_body caps lib top_k self1 sid session pid question provider w1 = (t, r, s2, w2)"
      and nft: "Yield (AgentStreamEvent Evaluation NothingFound) \<in> set t"
    for session t r s2 w2
    using tb
  proof (cases rule: try_body_cases)
    case (intent_failed titles e)
    then show ?thesis using nft by simp
  next
    case (loop_failed titles intent_result tr_l e wa)
    then have "Yield (AgentStreamEvent Evaluation NothingFound) \<in> set tr_l" using nft by simp
    with retrieval_loop_nothing_found [OF loop_failed(2)] init show ?thesis by auto
  next
    case (answer_failed titles intent_result tr_l v wa wb tr_s e)
    then have "Yield (AgentStreamEvent Evaluation NothingFound) \<in> set tr_l"
      using nft in_answer [OF answer_failed(3)] by simp
    with retrieval_loop_nothing_found [OF answer_failed(2)] init have "all_results v = []" by auto
    then show ?thesis using answer_failed(3) by (simp add: generate_answer_def)
  next
    case (sources_failed titles intent_result tr_l v wa wb tr_s answer e)
    then have "Yield (AgentStreamEvent Evaluation NothingFound) \<in> set tr_l"
      using nft in_answer [OF sources_failed(3)] by simp
    with retrieval_loop_nothing_found [OF sources_failed(2)] init have "all_results v = []" by auto
    then show ?thesis using sources_failed(4) by simp
  next
    case (completed titles intent_result tr_l v wa wb tr_s answer wc entries)
    then have "Yield (AgentStreamEvent Evaluation NothingFound) \<in> set tr_l"
      using nft in_answer [OF completed(3)] by simp
    with retrieval_loop_nothing_found [OF completed(2)] init obtain ks n where
      l: "n \<le> 3" "tr_l = Yield (AgentStreamEvent Retrieval (RoundStarted (current_round initial_vars + 1) ks))
              # map (\<lambda>k. Call (VectorSearch k top_k (Some pid))) (take n ks)
              @ [Yield (AgentStreamEvent Retrieval (FragmentsFound 0)),
                 Yield (AgentStreamEvent Evaluation NothingFound)]" "all_results v = []"
      by auto
    have a: "tr_s = [Yield (AgentStreamEvent Content (Chunk not_found_answer))]"
      "answer = not_found_answer"
      using completed(3) l(3) by (simp_all add: generate_answer_def)
    have e: "entries = []" using completed(4) l(3) by simp
    from save_history_sessions [OF completed(5)] a(2) have s: "\<exists>t1 t2. s2 = self1\<lparr>sessions := (sessions self1)
             (sid \<mapsto> session\<lparr>messages := last_n 20 (messages session
                  @ [\<lparr>role = User, content = question, timestamp = t1\<rparr>,
                     \<lparr>role = Assistant, content = not_found_answer, timestamp = t2\<rparr>])\<rparr>)\<rparr>"
      by simp
    have c: "\<not> list_ex is_evaluation_call t \<and> \<not> list_ex is_stream_call t"
      using completed(1) l(2) a(1) by simp
    have "t = ([Yield (AgentStreamEvent Thinking AnalysingIntent), Call (LoadParsedContent pid),
             Call (Chat (intent_request question titles (messages session) provider)),
             Yield (AgentStreamEvent Thinking (IntentRecognised intent_result)),
             Yield (AgentStreamEvent Retrieval (RoundStarted (current_round initial_vars + 1) ks))]
              @ map (\<lambda>k. Call (VectorSearch k top_k (Some pid))) (take n ks)
              @ [Yield (AgentStreamEvent Retrieval (FragmentsFound 0))])
            @ [Yield (AgentStreamEvent Evaluation NothingFound),
               Yield (AgentStreamEvent Content (Chunk not_found_answer)),
               Yield (AgentStreamEvent Sources (SourceList [])),
               Yield (AgentStreamEvent Done (Flag True))]"
      using completed(1) l(2) a(1) e by simp
    then have "\<exists>tr0. t = tr0 @ [Yield (AgentStreamEvent Evaluation NothingFound),
               Yield (AgentStreamEvent Content (Chunk not_found_answer)),
               Yield (AgentStreamEvent Sources (SourceList [])),
               Yield (AgentStreamEvent Done (Flag True))]" by blast
    with c s completed(6) show ?thesis by blast
  qed
  from run res show ?thesis
  proof (cases rule: chat_stream_cases)
    case invalid
    then show ?thesis using nf by simp
  next
    case (failed session tr0 e)
    then have "Yield (AgentStreamEvent Evaluation NothingFound) \<in> set tr0" using nf by simp
    from key [OF failed(3) this] show ?thesis by simp
  next
    case (finished session)
    from key [OF finished(3) nf] obtain tr0 t1 t2 where
      k: "\<not> list_ex is_evaluation_call tr" "\<not> list_ex is_stream_call tr"
         "tr = tr0 @ [Yield (AgentStreamEvent Evaluation NothingFound),
                             Yield (AgentStreamEvent Content (Chunk not_found_answer)),
                             Yield (AgentStreamEvent Sources (SourceList [])),
                             Yield (AgentStreamEvent Done (Flag True))]"
         "self' = self1\<lparr>sessions := (sessions self1)
             (sid \<mapsto> session\<lparr>messages := last_n 20 (messages session
                  @ [\<lparr>role = User, content = question, timestamp = t1\<rparr>,
                     \<lparr>role = Assistant, content = not_found_answer, timestamp = t2\<rparr>])\<rparr>)\<rparr>"
      by blast
    have "sessions self' sid = Some (session\<lparr>messages := last_n 20 (messages session
                  @ [\<lparr>role = User, content = question, timestamp = t1\<rparr>,
                     \<lparr>role = Assistant, content = not_found_answer, timestamp = t2\<rparr>])\<rparr>)"
      using k(4) by simp
    with k(1-3) finished(1) show ?thesis by blast
  qed
qed

theorem empty_evidence_path_witness:
  "Yield (AgentStreamEvent Evaluation NothingFound) \<in> set (fst (chat_stream example_caps example_lib 5
      (example_orchestrator 3) (ascii ''p1'') (ascii ''n'') (Some (ascii ''s1'')) None 0))
   \<and> \<not> list_ex is_evaluation_call (fst (chat_stream example_caps example_lib 5
      (example_orchestrator 3) (ascii ''p1'') (ascii ''n'') (Some (ascii ''s1'')) None 0))
   \<and> \<not> list_ex is_stream_call (fst (chat_stream example_caps example_lib 5
      (example_orchestrator 3) (ascii ''p1'') (ascii ''n'') (Some (ascii ''s1'')) None 0))"
proof -
  have nf: "Yield (AgentStreamEvent Evaluation NothingFound) \<in> set
      [Yield (AgentStreamEvent Thinking AnalysingIntent),
       Call (LoadParsedContent [112, 49]),
       Call (Chat (IntentRequest [110] [] [] None)),
       Yield (AgentStreamEvent Thinking (IntentRecognised
         \<lparr>category = GENERAL, target_sections = [], intent_keywords = [[110]],
          reasoning = [35299, 26512, 22833, 36133, 65292, 20351, 29992, 40664, 35748, 35774, 32622]\<rparr>)),
       Yield (AgentStreamEvent Retrieval (RoundStarted 1 [[110]])),
       Call (VectorSearch [110] 5 (Some [112, 49])),
       Yield (AgentStreamEvent Retrieval (FragmentsFound 0)),
       Yield (AgentStreamEvent Evaluation NothingFound),
       Yield (AgentStreamEvent Content (Chunk not_found_answer)),
       Yield (AgentStreamEvent Sources (SourceList [])),
       Yield (AgentStreamEvent Done (Flag True))]" by simp
  from empty_evidence_path [OF example_empty_run example_resolved nf] nf
  show ?thesis by (simp only: example_empty_run fst_conv) simp
qed


section \<open>Bounds on rounds, searches and evaluations\<close>

lemma sunr_searches:
  "searches_until_next_round (map (\<lambda>k. Call (VectorSearch k top_k p)) ks @ rest)
     = length ks + searches_until_next_round rest"
  by (induction ks) simp_all

lemma sunr_quiet:
  "list_all (\<lambda>x. \<not> is_search x \<and> \<not> is_round_start x) xs \<Longrightarrow>
     searches_until_next_round (xs @ rest) = searches_until_next_round rest"
  by (induction xs) simp_all

lemma sunr_append_quiet:
  "list_all (\<lambda>x. \<not> is_search x \<and> \<not> is_round_start x) post \<Longrightarrow>
     searches_until_next_round (xs @ post) = searches_until_next_round xs"
proof (induction xs)
  case Nil
  then show ?case using sunr_quiet [of post "[]"] by simp
next
  case (Cons x xs)
  then show ?case by simp
qed

lemma sbr_no_rounds:
  "list_all (\<lambda>x. \<not> is_round_start x) xs \<Longrightarrow> searches_by_round (xs @ rest) = searches_by_round rest"
  by (induction xs) simp_all

lemma sbr_append_quiet:
  "list_all (\<lambda>x. \<not> is_search x \<and> \<not> is_round_start x) post \<Longrightarrow>
     searches_by_round (xs @ post) = searches_by_round xs"
proof (induction xs)
  case Nil
  then have "list_all (\<lambda>x. \<not> is_round_start x) post" by (simp add: list_all_iff)
  from sbr_no_rounds [OF this, of "[]"] show ?case by simp
next
  case (Cons x xs)
  then show ?case by (simp add: sunr_append_quiet)
qed

lemma searches_not_rounds [simp]:
  "list_all (\<lambda>x. \<not> is_round_start x) (map (\<lambda>k. Call (VectorSearch k top_k p)) ks)"
  "list_all (\<lambda>x. \<not> is_sufficient_verdict x) (map (\<lambda>k. Call (VectorSearch k top_k p)) ks)"
  "filter is_search (map (\<lambda>k. Call (VectorSearch k top_k p)) ks)
     = map (\<lambda>k. Call (VectorSearch k top_k p)) ks"
  "filter is_evaluation_call (map (\<lambda>k. Call (VectorSearch k top_k p)) ks) = []"
  by (induction ks) simp_all

lemma filter_none: "list_all (\<lambda>x. \<not> P x) xs \<Longrightarrow> filter P xs = []"
  by (induction xs) simp_all

lemma after_sufficient_skip:
  "list_all (\<lambda>x. \<not> is_sufficient_verdict x) xs \<Longrightarrow>
     after_sufficient (xs @ rest) = after_sufficient rest"
  by (simp add: after_sufficient_def dropWhile_append2 list_all_iff)

lemma after_sufficient_hit:
  "list_all (\<lambda>x. \<not> is_sufficient_verdict x) xs \<Longrightarrow> is_sufficient_verdict x \<Longrightarrow>
     after_sufficient (xs @ x # rest) = rest"
  by (simp add: after_sufficient_def dropWhile_append2 list_all_iff)

lemma after_sufficient_subset: "set (after_sufficient xs) \<subseteq> set xs"
  unfolding after_sufficient_def
  by (meson set_drop_subset set_dropWhileD subset_iff)

lemma after_sufficient_append:
  "after_sufficient xs = [] \<Longrightarrow> set (after_sufficient (xs @ rest)) \<subseteq> set rest"
proof (cases "list_all (\<lambda>x. \<not> is_sufficient_verdict x) xs")
  case True
  then show ?thesis using after_sufficient_skip [OF True, of rest] after_sufficient_subset by simp
next
  case False
  assume e: "after_sufficient xs = []"
  from False have "dropWhile (\<lambda>x. \<not> is_sufficient_verdict x) xs \<noteq> []"
    by (simp add: list_all_iff)
  then have "dropWhile (\<lambda>x. \<not> is_sufficient_verdict x) (xs @ rest)
      = dropWhile (\<lambda>x. \<not> is_sufficient_verdict x) xs @ rest"
    by (metis dropWhile_append1 dropWhile_eq_Nil_conv)
  moreover obtain y ys where "dropWhile (\<lambda>x. \<not> is_sufficient_verdict x) xs = y # ys"
    using \<open>dropWhile (\<lambda>x. \<not> is_sufficient_verdict x) xs \<noteq> []\<close> by (meson neq_Nil_conv)
  ultimately have "after_sufficient (xs @ rest) = after_sufficient xs @ rest"
    by (simp add: after_sufficient_def)
  then show ?thesis using e by simp
qed

lemma retrieval_round_shape:
  assumes run: "retrieval_round caps lib top_k max_rounds pid question intent_result provider
                  rnd found prev w = (tr, res, w')"
  shows "tr = [] \<or> (\<exists>ks n T. n \<le> 3
           \<and> tr = Yield (AgentStreamEvent Retrieval (RoundStarted rnd ks))
                  # map (\<lambda>k. Call (VectorSearch k top_k (Some pid))) (take n ks) @ T
           \<and> list_all (\<lambda>x. \<not> is_search x \<and> \<not> is_round_start x) T
           \<and> length (filter is_evaluation_call T) \<le> 1
           \<and> (list_all (\<lambda>x. \<not> is_sufficient_verdict x) T
              \<or> (\<exists>T0 x rs ev. T = T0 @ [x] \<and> list_all (\<lambda>x. \<not> is_sufficient_verdict x) T0
                    \<and> is_sufficient_verdict x \<and> is_sufficient ev \<and> res = Inr (Evaluated rs ev))))"
  using run
proof (cases rule: retrieval_round_cases)
  case unbound
  then show ?thesis by simp
next
  case (search_failed ks n e)
  then have "tr = Yield (AgentStreamEvent Retrieval (RoundStarted rnd ks))
                  # map (\<lambda>k. Call (VectorSearch k top_k (Some pid))) (take n ks) @ []" by simp
  with search_failed(1) show ?thesis by (intro disjI2 exI [of _ ks] exI [of _ n] exI [of _ "[]"]) simp
next
  case (found_nothing ks n extra)
  then show ?thesis
    by (intro disjI2 exI [of _ ks] exI [of _ n]
          exI [of _ "[Yield (AgentStreamEvent Retrieval (FragmentsFound 0)),
                 Yield (AgentStreamEvent Evaluation NothingFound)]"]) simp
next
  case (failed ks n extra e tail)
  then show ?thesis
    by (intro disjI2 exI [of _ ks] exI [of _ n]
          exI [of _ "Yield (AgentStreamEvent Retrieval
                         (FragmentsFound (length (deduplicate_results (found @ extra)))))
              # Yield (AgentStreamEvent Thinking EvaluatingCompleteness) # tail"]) auto
next
  case (evaluated ks n extra ctx ev)
  let ?T0 = "[Yield (AgentStreamEvent Retrieval
                          (FragmentsFound (length (deduplicate_results (found @ extra))))),
                 Yield (AgentStreamEvent Thinking EvaluatingCompleteness),
                 Call (Chat (EvaluationRequest question ctx provider))]"
  have v: "\<not> is_search (verdict_event max_rounds rnd ev)"
    "\<not> is_round_start (verdict_event max_rounds rnd ev)"
    "\<not> is_evaluation_call (verdict_event max_rounds rnd ev)"
    "is_sufficient_verdict (verdict_event max_rounds rnd ev) \<longleftrightarrow> is_sufficient ev"
    by (simp_all add: verdict_event_def)
  show ?thesis
  proof (cases "is_sufficient ev")
    case True
    have "tr = Yield (AgentStreamEvent Retrieval (RoundStarted rnd ks))
                  # map (\<lambda>k. Call (VectorSearch k top_k (Some pid))) (take n ks)
                  @ (?T0 @ [verdict_event max_rounds rnd ev])" using evaluated(2) by simp
    moreover have "\<exists>T0 x rs ev'. ?T0 @ [verdict_event max_rounds rnd ev] = T0 @ [x]
        \<and> list_all (\<lambda>x. \<not> is_sufficient_verdict x) T0
        \<and> is_sufficient_verdict x \<and> is_sufficient ev' \<and> res = Inr (Evaluated rs ev')"
      using True v evaluated(3)
      by (intro exI [of _ ?T0] exI [of _ "verdict_event max_rounds rnd ev"]
            exI [of _ "deduplicate_results (found @ extra)"] exI [of _ ev]) simp
    ultimately show ?thesis using evaluated(1) v
      by (intro disjI2 exI [of _ ks] exI [of _ n]
            exI [of _ "?T0 @ [verdict_event max_rounds rnd ev]"]) simp
  next
    case False
    have "tr = Yield (AgentStreamEvent Retrieval (RoundStarted rnd ks))
                  # map (\<lambda>k. Call (VectorSearch k top_k (Some pid))) (take n ks)
                  @ (?T0 @ [verdict_event max_rounds rnd ev])" using evaluated(2) by simp
    then show ?thesis using evaluated(1) v False
      by (intro disjI2 exI [of _ ks] exI [of _ n]
            exI [of _ "?T0 @ [verdict_event max_rounds rnd ev]"]) simp
  qed
qed

lemma retrieval_round_summary:
  assumes run: "retrieval_round caps lib top_k max_rounds pid question intent_result provider
                  rnd found prev w = (tr, res, w')"
  shows "tr = [] \<or> (\<exists>n\<le>3.
           (\<forall>rest. searches_by_round (tr @ rest)
                      = (n + searches_until_next_round rest) # searches_by_round rest
                  \<and> searches_until_next_round (tr @ rest) = 0
                  \<and> length (filter is_search (tr @ rest)) = n + length (filter is_search rest)
                  \<and> length (filter is_evaluation_call (tr @ rest))
                      \<le> 1 + length (filter is_evaluation_call rest))
         \<and> ((\<forall>rest. after_sufficient (tr @ rest) = after_sufficient rest)
            \<or> ((\<forall>rest. after_sufficient (tr @ rest) = rest)
                 \<and> (\<exists>rs ev. is_sufficient ev \<and> res = Inr (Evaluated rs ev)))))"
proof -
  from retrieval_round_shape [OF run] consider "tr = []"
    | ks n T where "n \<le> 3"
        "tr = Yield (AgentStreamEvent Retrieval (RoundStarted rnd ks))
                  # map (\<lambda>k. Call (VectorSearch k top_k (Some pid))) (take n ks) @ T"
        "list_all (\<lambda>x. \<not> is_search x \<and> \<not> is_round_start x) T"
        "length (filter is_evaluation_call T) \<le> 1"
        "list_all (\<lambda>x. \<not> is_sufficient_verdict x) T
              \<or> (\<exists>T0 x rs ev. T = T0 @ [x] \<and> list_all (\<lambda>x. \<not> is_sufficient_verdict x) T0
                    \<and> is_sufficient_verdict x \<and> is_sufficient ev \<and> res = Inr (Evaluated rs ev))"
    by blast
  then show ?thesis
  proof cases
    case 1
    then show ?thesis by simp
  next
    case (2 ks n T)
    let ?S = "map (\<lambda>k. Call (VectorSearch k top_k (Some pid))) (take n ks)"
    let ?R = "Yield (AgentStreamEvent Retrieval (RoundStarted rnd ks))"
    let ?m = "length (take n ks)"
    have m3: "?m \<le> 3" using 2(1) by simp
    have fs: "filter is_search T = []" using 2(3) by (intro filter_none) (simp add: list_all_iff)
    have counts: "searches_by_round (tr @ rest)
                      = (?m + searches_until_next_round rest) # searches_by_round rest
                  \<and> searches_until_next_round (tr @ rest) = 0
                  \<and> length (filter is_search (tr @ rest)) = ?m + length (filter is_search rest)
                  \<and> length (filter is_evaluation_call (tr @ rest))
                      \<le> 1 + length (filter is_evaluation_call rest)" for rest
    proof -
      have a: "searches_until_next_round (?S @ T @ rest) = ?m + searches_until_next_round rest"
        using sunr_searches [of top_k "Some pid" "take n ks" "T @ rest"] sunr_quiet [OF 2(3), of rest]
        by simp
      have "list_all (\<lambda>x. \<not> is_round_start x) T" using 2(3) by (simp add: list_all_iff)
      then have "list_all (\<lambda>x. \<not> is_round_start x) (?S @ T)" by simp
      from sbr_no_rounds [OF this, of rest]
      have b: "searches_by_round (?S @ T @ rest) = searches_by_round rest" by simp
      show ?thesis using 2(2,4) a b fs by simp
    qed
    have suff: "(\<forall>rest. after_sufficient (tr @ rest) = after_sufficient rest)
            \<or> ((\<forall>rest. after_sufficient (tr @ rest) = rest)
                 \<and> (\<exists>rs ev. is_sufficient ev \<and> res = Inr (Evaluated rs ev)))"
      using 2(5)
    proof
      assume "list_all (\<lambda>x. \<not> is_sufficient_verdict x) T"
      then have "list_all (\<lambda>x. \<not> is_sufficient_verdict x) tr" using 2(2) by simp
      from after_sufficient_skip [OF this] show ?thesis by simp
    next
      assume "\<exists>T0 x rs ev. T = T0 @ [x] \<and> list_all (\<lambda>x. \<not> is_sufficient_verdict x) T0
                    \<and> is_sufficient_verdict x \<and> is_sufficient ev \<and> res = Inr (Evaluated rs ev)"
      then obtain T0 x rs ev where t: "T = T0 @ [x]" "list_all (\<lambda>x. \<not> is_sufficient_verdict x) T0"
        "is_sufficient_verdict x" "is_sufficient ev" "res = Inr (Evaluated rs ev)" by blast
      have "list_all (\<lambda>x. \<not> is_sufficient_verdict x) (?R # ?S @ T0)" using t(2) by simp
      from after_sufficient_hit [OF this t(3)]
      have "after_sufficient (tr @ rest) = rest" for rest using 2(2) t(1) by simp
      then show ?thesis using t(4,5) by blast
    qed
    from m3 counts suff show ?thesis by blast
  qed
qed

lemma retrieval_loop_bounds:
  assumes "retrieval_loop caps lib top_k max_rounds pid question intent_result provider v w
             = (tr, res, w')"
  shows "length (searches_by_round tr) \<le> nat (max_rounds - current_round v)
       \<and> list_all (\<lambda>n. n \<le> 3) (searches_by_round tr)
       \<and> searches_until_next_round tr = 0
       \<and> sum_list (searches_by_round tr) = length (filter is_search tr)
       \<and> length (filter is_evaluation_call tr) \<le> length (searches_by_round tr)
       \<and> after_sufficient tr = []"
  using assms
proof (induction rule: retrieval_loop_induct)
  case (exit v w)
  then show ?case by (simp add: after_sufficient_def)
next
  case (error v w tr e w1)
  from retrieval_round_summary [OF error(3)] show ?case
  proof
    assume "tr = []"
    then show ?thesis by (simp add: after_sufficient_def)
  next
    assume "\<exists>n\<le>3.
           (\<forall>rest. searches_by_round (tr @ rest)
                      = (n + searches_until_next_round rest) # searches_by_round rest
                  \<and> searches_until_next_round (tr @ rest) = 0
                  \<and> length (filter is_search (tr @ rest)) = n + length (filter is_search rest)
                  \<and> length (filter is_evaluation_call (tr @ rest))
                      \<le> 1 + length (filter is_evaluation_call rest))
         \<and> ((\<forall>rest. after_sufficient (tr @ rest) = after_sufficient rest)
            \<or> ((\<forall>rest. after_sufficient (tr @ rest) = rest)
                 \<and> (\<exists>rs ev. is_sufficient ev \<and> Inl e = Inr (Evaluated rs ev))))"
    then obtain n where n: "n \<le> 3"
      "\<And>rest. searches_by_round (tr @ rest)
                      = (n + searches_until_next_round rest) # searches_by_round rest
                  \<and> searches_until_next_round (tr @ rest) = 0
                  \<and> length (filter is_search (tr @ rest)) = n + length (filter is_search rest)
                  \<and> length (filter is_evaluation_call (tr @ rest))
                      \<le> 1 + length (filter is_evaluation_call rest)"
      "\<And>rest. after_sufficient (tr @ rest) = after_sufficient rest" by auto
    from n(2) [of "[]"] n(3) [of "[]"] n(1) error(1) show ?thesis
      by (simp add: after_sufficient_def)
  qed
next
  case (break v w tr results w1)
  from retrieval_round_summary [OF break(3)] show ?case
  proof
    assume "tr = []"
    then show ?thesis by (simp add: after_sufficient_def)
  next
    assume "\<exists>n\<le>3.
           (\<forall>rest. searches_by_round (tr @ rest)
                      = (n + searches_until_next_round rest) # searches_by_round rest
                  \<and> searches_until_next_round (tr @ rest) = 0
                  \<and> length (filter is_search (tr @ rest)) = n + length (filter is_search rest)
                  \<and> length (filter is_evaluation_call (tr @ rest))
                      \<le> 1 + length (filter is_evaluation_call rest))
         \<and> ((\<forall>rest. after_sufficient (tr @ rest) = after_sufficient rest)
            \<or> ((\<forall>rest. after_sufficient (tr @ rest) = rest)
                 \<and> (\<exists>rs ev. is_sufficient ev \<and> Inr (Break results) = Inr (Evaluated rs ev))))"
    then obtain n where n: "n \<le> 3"
      "\<And>rest. searches_by_round (tr @ rest)
                      = (n + searches_until_next_round rest) # searches_by_round rest
                  \<and> searches_until_next_round (tr @ rest) = 0
                  \<and> length (filter is_search (tr @ rest)) = n + length (filter is_search rest)
                  \<and> length (filter is_evaluation_call (tr @ rest))
                      \<le> 1 + length (filter is_evaluation_call rest)"
      "\<And>rest. after_sufficient (tr @ rest) = after_sufficient rest" by auto
    from n(2) [of "[]"] n(3) [of "[]"] n(1) break(1) show ?thesis
      by (simp add: after_sufficient_def)
  qed
next
  case (step v w tr results ev w1 tr' res w2)
  have cr: "current_round (after_round v (Evaluated results ev)) = current_round v + 1" by simp
  from retrieval_round_summary [OF step(3)] show ?case
  proof
    assume "tr = []"
    then show ?thesis using step.IH step(1) cr by auto
  next
    assume "\<exists>n\<le>3.
           (\<forall>rest. searches_by_round (tr @ rest)
                      = (n + searches_until_next_round rest) # searches_by_round rest
                  \<and> searches_until_next_round (tr @ rest) = 0
                  \<and> length (filter is_search (tr @ rest)) = n + length (filter is_search rest)
                  \<and> length (filter is_evaluation_call (tr @ rest))
                      \<le> 1 + length (filter is_evaluation_call rest))
         \<and> ((\<forall>rest. after_sufficient (tr @ rest) = after_sufficient rest)
            \<or> ((\<forall>rest. after_sufficient (tr @ rest) = rest)
                 \<and> (\<exists>rs ev'. is_sufficient ev' \<and> Inr (Evaluated results ev) = Inr (Evaluated rs ev'))))"
    then obtain n where n: "n \<le> 3"
      "\<And>rest. searches_by_round (tr @ rest)
                      = (n + searches_until_next_round rest) # searches_by_round rest
                  \<and> searches_until_next_round (tr @ rest) = 0
                  \<and> length (filter is_search (tr @ rest)) = n + length (filter is_search rest)
                  \<and> length (filter is_evaluation_call (tr @ rest))
                      \<le> 1 + length (filter is_evaluation_call rest)"
      "(\<forall>rest. after_sufficient (tr @ rest) = after_sufficient rest)
            \<or> ((\<forall>rest. after_sufficient (tr @ rest) = rest) \<and> is_sufficient ev)" by auto
    have as: "after_sufficient (tr @ tr') = []"
      using n(3)
    proof
      assume "\<forall>rest. after_sufficient (tr @ rest) = after_sufficient rest"
      then show ?thesis using step.IH by simp
    next
      assume a: "(\<forall>rest. after_sufficient (tr @ rest) = rest) \<and> is_sufficient ev"
      then have "sufficient (after_round v (Evaluated results ev))" by simp
      then have "retrieval_loop caps lib top_k max_rounds pid question intent_result provider
          (after_round v (Evaluated results ev)) w1 = ([], Inr (after_round v (Evaluated results ev)), w1)"
        by (intro retrieval_loop_exit) simp
      with step(4) have "tr' = []" by simp
      moreover from a have "after_sufficient (tr @ []) = []" by blast
      ultimately show ?thesis by simp
    qed
    from n(2) [of tr'] n(1) step.IH step(1) cr as show ?thesis by auto
  qed
qed

lemma framed_bounds:
  assumes pre: "list_all (\<lambda>x. \<not> is_round_start x \<and> \<not> is_search x \<and> \<not> is_evaluation_call x
                   \<and> \<not> is_sufficient_verdict x) pre"
    and post: "list_all (\<lambda>x. \<not> is_round_start x \<and> \<not> is_search x \<and> \<not> is_evaluation_call x) post"
    and l: "length (searches_by_round tr_l) \<le> m
       \<and> list_all (\<lambda>n. n \<le> 3) (searches_by_round tr_l)
       \<and> sum_list (searches_by_round tr_l) = length (filter is_search tr_l)
       \<and> length (filter is_evaluation_call tr_l) \<le> length (searches_by_round tr_l)
       \<and> after_sufficient tr_l = []"
  shows "length (searches_by_round (pre @ tr_l @ post)) \<le> m
       \<and> list_all (\<lambda>n. n \<le> 3) (searches_by_round (pre @ tr_l @ post))
       \<and> sum_list (searches_by_round (pre @ tr_l @ post))
           = length (filter is_search (pre @ tr_l @ post))
       \<and> length (filter is_evaluation_call (pre @ tr_l @ post))
           \<le> length (searches_by_round (pre @ tr_l @ post))
       \<and> list_all (\<lambda>x. \<not> is_round_start x \<and> \<not> is_search x \<and> \<not> is_evaluation_call x)
           (after_sufficient (pre @ tr_l @ post))"
proof -
  have p1: "list_all (\<lambda>x. \<not> is_round_start x) pre" "list_all (\<lambda>x. \<not> is_search x) pre"
    "list_all (\<lambda>x. \<not> is_evaluation_call x) pre" "list_all (\<lambda>x. \<not> is_sufficient_verdict x) pre"
    using pre by (simp_all add: list_all_iff)
  have q1: "list_all (\<lambda>x. \<not> is_search x \<and> \<not> is_round_start x) post"
    "list_all (\<lambda>x. \<not> is_search x) post" "list_all (\<lambda>x. \<not> is_evaluation_call x) post"
    using post by (simp_all add: list_all_iff)
  have sbr: "searches_by_round (pre @ tr_l @ post) = searches_by_round tr_l"
    using sbr_no_rounds [OF p1(1), of "tr_l @ post"] sbr_append_quiet [OF q1(1), of tr_l] by simp
  have fs: "filter is_search (pre @ tr_l @ post) = filter is_search tr_l"
    using filter_none [OF p1(2)] filter_none [OF q1(2)] by simp
  have fe: "filter is_evaluation_call (pre @ tr_l @ post) = filter is_evaluation_call tr_l"
    using filter_none [OF p1(3)] filter_none [OF q1(3)] by simp
  have "after_sufficient (pre @ tr_l @ post) = after_sufficient (tr_l @ post)"
    using after_sufficient_skip [OF p1(4)] by simp
  moreover have "set (after_sufficient (tr_l @ post)) \<subseteq> set post"
    using after_sufficient_append l by blast
  ultimately have "list_all (\<lambda>x. \<not> is_round_start x \<and> \<not> is_search x \<and> \<not> is_evaluation_call x)
           (after_sufficient (pre @ tr_l @ post))"
    using post by (auto simp: list_all_iff)
  then show ?thesis using l sbr fs fe by simp
qed

lemma generate_answer_outside:
  assumes "generate_answer caps session question provider found w = (tr, res, w')"
  shows "list_all (\<lambda>x. \<not> is_round_start x \<and> \<not> is_search x \<and> \<not> is_evaluation_call x) tr"
  using assms by (cases rule: generate_answer_cases) (auto simp: list_all_iff)

lemma try_body_bounds:
  assumes run: "try_body caps lib top_k self sid session pid question provider w = (tr, res, self2, w2)"
  shows "\<exists>pre tr_l post. tr = pre @ tr_l @ post
       \<and> list_all (\<lambda>x. \<not> is_round_start x \<and> \<not> is_search x \<and> \<not> is_evaluation_call x
                   \<and> \<not> is_sufficient_verdict x) pre
       \<and> list_all (\<lambda>x. \<not> is_round_start x \<and> \<not> is_search x \<and> \<not> is_evaluation_call x) post
       \<and> length (searches_by_round tr_l) \<le> nat (max_retrieval_rounds self)
       \<and> list_all (\<lambda>n. n \<le> 3) (searches_by_round tr_l)
       \<and> sum_list (searches_by_round tr_l) = length (filter is_search tr_l)
       \<and> length (filter is_evaluation_call tr_l) \<le> length (searches_by_round tr_l)
       \<and> after_sufficient tr_l = []"
  using run
proof (cases rule: try_body_cases)
  case (intent_failed titles e)
  then have "tr = [Yield (AgentStreamEvent Thinking AnalysingIntent), Call (LoadParsedContent pid),
             Call (Chat (intent_request question titles (messages session) provider))] @ [] @ []"
    by simp
  then show ?thesis
    by (intro exI [of _ "[Yield (AgentStreamEvent Thinking AnalysingIntent), Call (LoadParsedContent pid),
             Call (Chat (intent_request question titles (messages session) provider))]"]
          exI [of _ "[]"]) (simp add: after_sufficient_def)
next
  case (loop_failed titles intent_result tr_l e wa)
  from retrieval_loop_bounds [OF loop_failed(2)] loop_failed(1) show ?thesis
    by (intro exI [of _ "[Yield (AgentStreamEvent Thinking AnalysingIntent), Call (LoadParsedContent pid),
             Call (Chat (intent_request question titles (messages session) provider)),
             Yield (AgentStreamEvent Thinking (IntentRecognised intent_result))]"]
          exI [of _ tr_l] exI [of _ "[]"]) (simp add: initial_vars_def)
next
  case (answer_failed titles intent_result tr_l v wa wb tr_s e)
  from retrieval_loop_bounds [OF answer_failed(2)] answer_failed(1)
    generate_answer_outside [OF answer_failed(3)] show ?thesis
    by (intro exI [of _ "[Yield (AgentStreamEvent Thinking AnalysingIntent), Call (LoadParsedContent pid),
             Call (Chat (intent_request question titles (messages session) provider)),
             Yield (AgentStreamEvent Thinking (IntentRecognised intent_result))]"]
          exI [of _ tr_l] exI [of _ tr_s]) (simp add: initial_vars_def)
next
  case (sources_failed titles intent_result tr_l v wa wb tr_s answer e)
  from retrieval_loop_bounds [OF sources_failed(2)] sources_failed(1)
    generate_answer_outside [OF sources_failed(3)] show ?thesis
    by (intro exI [of _ "[Yield (AgentStreamEvent Thinking AnalysingIntent), Call (LoadParsedContent pid),
             Call (Chat (intent_request question titles (messages session) provider)),
             Yield (AgentStreamEvent Thinking (IntentRecognised intent_result))]"]
          exI [of _ tr_l] exI [of _ tr_s]) (simp add: initial_vars_def)
next
  case (completed titles intent_result tr_l v wa wb tr_s answer wc entries)
  from retrieval_loop_bounds [OF completed(2)] completed(1)
    generate_answer_outside [OF completed(3)] show ?thesis
    by (intro exI [of _ "[Yield (AgentStreamEvent Thinking AnalysingIntent), Call (LoadParsedContent pid),
             Call (Chat (intent_request question titles (messages session) provider)),
             Yield (AgentStreamEvent Thinking (IntentRecognised intent_result))]"]
          exI [of _ tr_l]
          exI [of _ "tr_s @ [Yield (AgentStreamEvent Sources (SourceList entries)),
               Yield (AgentStreamEvent Done (Flag True))]"]) (simp add: initial_vars_def)
qed

text \<open>
  Claim C4. In every exchange the retrieval loop starts at most \<open>max_retrieval_rounds\<close>
  rounds; each round makes at most 3 vector searches, every search belongs to a round,
  and there is at most one evaluation call per round; and once a round's verdict reports
  sufficiency, no further round is started, no further search and no further evaluation
  is made.
\<close>

theorem retrieval_rounds_bounded:
  assumes run: "chat_stream caps lib top_k self pid question sid_opt provider w = (tr, self', w')"
  shows "length (searches_by_round tr) \<le> nat (max_retrieval_rounds self)
       \<and> list_all (\<lambda>n. n \<le> 3) (searches_by_round tr)
       \<and> sum_list (searches_by_round tr) = length (filter is_search tr)
       \<and> length (filter is_evaluation_call tr) \<le> length (searches_by_round tr)
       \<and> list_all (\<lambda>x. \<not> is_round_start x \<and> \<not> is_search x \<and> \<not> is_evaluation_call x)
           (after_sufficient tr)"
proof -
  obtain sid self1 w1 where res: "resolve_session caps self pid sid_opt w = (sid, self1, w1)"
    by (metis prod_cases3)
  have m: "max_retrieval_rounds self1 = max_retrieval_rounds self"
    using res by (cases rule: resolve_session_cases) auto
  from run res show ?thesis
  proof (cases rule: chat_stream_cases)
    case invalid
    then show ?thesis by (simp add: after_sufficient_def)
  next
    case (failed session tr0 e)
    from try_body_bounds [OF failed(3)] obtain pre tr_l post where
      t: "tr0 = pre @ tr_l @ post"
       "list_all (\<lambda>x. \<not> is_round_start x \<and> \<not> is_search x \<and> \<not> is_evaluation_call x
                   \<and> \<not> is_sufficient_verdict x) pre"
       "list_all (\<lambda>x. \<not> is_round_start x \<and> \<not> is_search x \<and> \<not> is_evaluation_call x) post"
       "length (searches_by_round tr_l) \<le> nat (max_retrieval_rounds self1)
       \<and> list_all (\<lambda>n. n \<le> 3) (searches_by_round tr_l)
       \<and> sum_list (searches_by_round tr_l) = length (filter is_search tr_l)
       \<and> length (filter is_evaluation_call tr_l) \<le> length (searches_by_round tr_l)
       \<and> after_sufficient tr_l = []" by blast
    have "list_all (\<lambda>x. \<not> is_round_start x \<and> \<not> is_search x \<and> \<not> is_evaluation_call x)
            (post @ [Yield (AgentStreamEvent Error (Failure e))])" using t(3) by simp
    from framed_bounds [OF t(2) this t(4)] show ?thesis using failed(4) t(1) m by simp
  next
    case (finished session)
    from try_body_bounds [OF finished(3)] obtain pre tr_l post where
      t: "tr = pre @ tr_l @ post"
       "list_all (\<lambda>x. \<not> is_round_start x \<and> \<not> is_search x \<and> \<not> is_evaluation_call x
                   \<and> \<not> is_sufficient_verdict x) pre"
       "list_all (\<lambda>x. \<not> is_round_start x \<and> \<not> is_search x \<and> \<not> is_evaluation_call x) post"
       "length (searches_by_round tr_l) \<le> nat (max_retrieval_rounds self1)
       \<and> list_all (\<lambda>n. n \<le> 3) (searches_by_round tr_l)
       \<and> sum_list (searches_by_round tr_l) = length (filter is_search tr_l)
       \<and> length (filter is_evaluation_call tr_l) \<le> length (searches_by_round tr_l)
       \<and> after_sufficient tr_l = []" by blast
    from framed_bounds [OF t(2) t(3) t(4)] show ?thesis using t(1) m by simp
  qed
qed

theorem retrieval_rounds_bounded_witness:
  "length (searches_by_round (fst (chat_stream example_caps example_lib 5 (example_orchestrator 3)
      (ascii ''p1'') (ascii ''q'') (Some (ascii ''s1'')) None 0))) \<le> nat 3
   \<and> searches_by_round (fst (chat_stream example_caps example_lib 5 (example_orchestrator 3)
      (ascii ''p1'') (ascii ''q'') (Some (ascii ''s1'')) None 0)) = [1]
   \<and> length (filter is_evaluation_call (fst (chat_stream example_caps example_lib 5
      (example_orchestrator 3) (ascii ''p1'') (ascii ''q'') (Some (ascii ''s1'')) None 0))) = 1"
proof -
  have "max_retrieval_rounds (example_orchestrator 3) = 3" by (simp add: example_orchestrator_def)
  with retrieval_rounds_bounded [OF example_finished_run]
  show ?thesis by (simp only: example_finished_run fst_conv) simp
qed


section \<open>Searching several keywords\<close>

lemma fresh_subseq: "subseq (fresh seen xs) xs"
  by (induction xs arbitrary: seen) (auto split: option.splits)

lemma fresh_find:
  "r \<in> set (fresh seen xs) \<Longrightarrow> find (\<lambda>s. chunk_id s = chunk_id r) xs = Some r"
proof (induction xs arbitrary: seen)
  case Nil
  then show ?case by simp
next
  case (Cons x xs)
  show ?case
  proof (cases "chunk_id x")
    case Missing
    with Cons.prems have r: "r \<in> set (fresh seen xs)" by simp
    from fresh_has_id [OF r] Missing have "chunk_id x \<noteq> chunk_id r" by auto
    then show ?thesis using Cons.IH [OF r] by simp
  next
    case Null
    with Cons.prems have r: "r \<in> set (fresh seen xs)" by simp
    from fresh_has_id [OF r] Null have "chunk_id x \<noteq> chunk_id r" by auto
    then show ?thesis using Cons.IH [OF r] by simp
  next
    case (Val c)
    show ?thesis
    proof (cases "c \<noteq> [] \<and> c \<notin> seen")
      case True
      then have f: "fresh seen (x # xs) = x # fresh (insert c seen) xs" using Val by simp
      show ?thesis
      proof (cases "r = x")
        case True
        then show ?thesis by simp
      next
        case False
        with Cons.prems f have r: "r \<in> set (fresh (insert c seen) xs)" by simp
        from fresh_has_id [OF r] Val have "chunk_id x \<noteq> chunk_id r" by auto
        then show ?thesis using Cons.IH [OF r] by simp
      qed
    next
      case False
      then have "fresh seen (x # xs) = fresh seen xs" using Val by auto
      with Cons.prems have r: "r \<in> set (fresh seen xs)" by simp
      from fresh_has_id [OF r] Val False have "chunk_id x \<noteq> chunk_id r" by auto
      then show ?thesis using Cons.IH [OF r] by simp
    qed
  qed
qed

lemma fresh_covers:
  "r \<in> set xs \<Longrightarrow> chunk_id r = Val c \<Longrightarrow> c \<noteq> [] \<Longrightarrow> c \<notin> seen \<Longrightarrow>
     Val c \<in> chunk_id ` set (fresh seen xs)"
proof (induction xs arbitrary: seen)
  case Nil
  then show ?case by simp
next
  case (Cons x xs)
  show ?case
  proof (cases "chunk_id x")
    case Missing
    then show ?thesis using Cons by auto
  next
    case Null
    then show ?thesis using Cons by auto
  next
    case (Val d)
    show ?thesis
    proof (cases "d = c")
      case True
      then show ?thesis using Val Cons.prems by (simp add: rev_image_eqI)
    next
      case False
      have r: "r \<in> set xs" using Cons.prems(1,2) Val False by auto
      show ?thesis
      proof (cases "d \<noteq> [] \<and> d \<notin> seen")
        case True
        have "c \<notin> insert d seen" using False Cons.prems(4) by simp
        from Cons.IH [OF r Cons.prems(2,3) this] show ?thesis using True Val by simp
      next
        case n: False
        from Cons.IH [OF r Cons.prems(2,3,4)] show ?thesis using n Val by auto
      qed
    qed
  qed
qed

lemma search_similar_chunks_call:
  "search_similar_chunks caps lib q pid top_k section_filter w = (tr, res, w') \<Longrightarrow>
     tr = [Call (VectorSearch q
             (if (case section_filter of None \<Rightarrow> False | Some fs \<Rightarrow> fs \<noteq> [])
              then top_k * 2 else top_k) pid)]"
  by (auto simp: search_similar_chunks_def Let_def split: prod.splits sum.splits)

lemma search_each_keyword_results:
  "search_each_keyword caps lib kws pid top_k section_filter (seen, kept) w = (tr, Inr out, w') \<Longrightarrow>
     tr = map (\<lambda>k. Call (VectorSearch k
                (if (case section_filter of None \<Rightarrow> False | Some fs \<Rightarrow> fs \<noteq> [])
                 then top_k * 2 else top_k) pid)) kws
     \<and> length (keyword_results caps lib kws pid top_k section_filter w) = length kws
     \<and> out = kept @ fresh seen (concat (keyword_results caps lib kws pid top_k section_filter w))"
proof (induction kws arbitrary: seen kept w tr w')
  case Nil
  then show ?case by simp
next
  case (Cons k kws)
  obtain tr1 r1 w1 where s: "search_similar_chunks caps lib k pid top_k section_filter w = (tr1, r1, w1)"
    by (metis prod_cases3)
  note tr1 = search_similar_chunks_call [OF s]
  show ?case
  proof (cases r1)
    case (Inl e)
    then show ?thesis using Cons.prems s by simp
  next
    case (Inr results)
    let ?seen = "seen \<union> ids_of (fresh seen results)"
    let ?kept = "kept @ fresh seen results"
    obtain tr2 res2 w2 where rec: "search_each_keyword caps lib kws pid top_k section_filter
        (?seen, ?kept) w1 = (tr2, res2, w2)" by (metis prod_cases3)
    with Cons.prems s Inr have eq: "tr = tr1 @ tr2" "res2 = Inr out"
      by (auto simp: foldl_keep_unseen)
    have kr: "keyword_results caps lib (k # kws) pid top_k section_filter w
        = results # keyword_results caps lib kws pid top_k section_filter w1"
      using s Inr by simp
    from Cons.IH [OF rec [unfolded eq(2)]] show ?thesis
      unfolding kr using eq(1) tr1 by (simp add: fresh_append)
  qed
qed

lemma example_multi_search:
  "search_multi_keywords example_caps example_lib
     [ascii ''a'', ascii ''b'', ascii ''c'', ascii ''d''] (Some (ascii ''p1'')) 2 None 0
   = ([Call (VectorSearch [97] 2 (Some [112, 49])), Call (VectorSearch [98] 2 (Some [112, 49])),
       Call (VectorSearch [99] 2 (Some [112, 49])), Call (VectorSearch [100] 2 (Some [112, 49]))],
      Inr [fragment (ascii ''c2'') (3 / 4), fragment (ascii ''c1'') (1 / 2)], 4)"
  by (simp add: search_multi_keywords_def search_similar_chunks_def slice_to_def example_caps_def
        keep_unseen_def sort_by_score_def score_key_def fragment_def ascii_def Let_def)

lemma example_capped_round:
  "retrieval_round example_caps example_lib 2 3 (ascii ''p1'') (ascii ''q'')
     \<lparr>category = GENERAL, target_sections = [],
      intent_keywords = [ascii ''a'', ascii ''b'', ascii ''c'', ascii ''d''], reasoning = []\<rparr>
     None 1 [] None 0
   = ([Yield (AgentStreamEvent Retrieval (RoundStarted 1 [[97], [98], [99], [100]])),
       Call (VectorSearch [97] 2 (Some [112, 49])),
       Call (VectorSearch [98] 2 (Some [112, 49])),
       Call (VectorSearch [99] 2 (Some [112, 49])),
       Yield (AgentStreamEvent Retrieval (FragmentsFound 2)),
       Yield (AgentStreamEvent Thinking EvaluatingCompleteness),
       Call (Chat (EvaluationRequest [113]
         [\<lparr>part_index = 1, part_section = Some [73, 110, 116, 114, 111],
           part_score = 1 / 2, part_text = Some [116, 101, 120, 116]\<rparr>,
          \<lparr>part_index = 2, part_section = Some [73, 110, 116, 114, 111],
           part_score = 3 / 4, part_text = Some [116, 101, 120, 116]\<rparr>] None)),
       Yield (AgentStreamEvent Evaluation (InfoSufficient
         [35299, 26512, 22833, 36133, 65292, 40664, 35748, 20449, 24687, 20805, 36275]))],
      Inr (Evaluated [fragment (ascii ''c1'') (1 / 2), fragment (ascii ''c2'') (3 / 4)]
             parse_failure_evaluation),
      4)"
  by (simp add: example_defs)

lemma example_keyword_results:
  "keyword_results example_caps example_lib
     (take 3 [ascii ''a'', ascii ''b'', ascii ''c'', ascii ''d'']) (Some (ascii ''p1'')) 2 None 0
   = [[fragment (ascii ''c1'') (1 / 2), fragment (ascii ''c2'') (3 / 4)],
      [fragment (ascii ''c1'') (1 / 2), fragment (ascii ''c2'') (3 / 4)],
      [fragment (ascii ''c1'') (1 / 2), fragment (ascii ''c2'') (3 / 4)]]"
  by (simp add: search_similar_chunks_def slice_to_def example_caps_def fragment_def ascii_def
        Let_def)

text \<open>
  Claim C9, as amended. A pass through the body of the retrieval loop of \<open>chat_stream\<close>
  makes one search for each of the first 3 keywords of the round, in their order, and no
  other; the evidence it leaves is the evidence it began with, followed by the results of
  these searches in the order of the keywords, deduplicated. The deduplication keeps of
  every non-empty chunk id the first result that carries it, in the order met, and does
  not sort. \<open>search_multi_keywords\<close> makes one search for every keyword it is given,
  merges the results in the order of the keywords with the same deduplication, and then
  sorts the merged list by descending score.
\<close>

theorem multi_keyword_retrieval:
  "(retrieval_round caps lib top_k max_rounds pid question intent_result provider
       rnd found prev w = (tr, Inr ended, w') \<longrightarrow>
      (\<exists>kws rest. tr = Yield (AgentStreamEvent Retrieval (RoundStarted rnd kws)) # rest
         \<and> filter is_search tr = map (\<lambda>k. Call (VectorSearch k top_k (Some pid))) (take 3 kws)
         \<and> length (filter is_search tr) \<le> 3
         \<and> length (keyword_results caps lib (take 3 kws) (Some pid) top_k None w)
             = length (take 3 kws)
         \<and> round_results ended = deduplicate_results
              (found @ concat (keyword_results caps lib (take 3 kws) (Some pid) top_k None w))))
   \<and> subseq (deduplicate_results ext) ext
   \<and> distinct (map chunk_id (deduplicate_results ext))
   \<and> (\<forall>r\<in>set (deduplicate_results ext). find (\<lambda>s. chunk_id s = chunk_id r) ext = Some r)
   \<and> (\<forall>r\<in>set ext. \<forall>c. chunk_id r = Val c \<and> c \<noteq> []
          \<longrightarrow> Val c \<in> chunk_id ` set (deduplicate_results ext))
   \<and> (search_multi_keywords caps lib kws2 pid2 top_k2 section_filter w2 = (tr2, Inr out, w3) \<longrightarrow>
        tr2 = map (\<lambda>k. Call (VectorSearch k
                (if (case section_filter of None \<Rightarrow> False | Some fs \<Rightarrow> fs \<noteq> [])
                 then top_k2 * 2 else top_k2) pid2)) kws2
      \<and> length (filter is_search tr2) = length kws2
      \<and> length (keyword_results caps lib kws2 pid2 top_k2 section_filter w2) = length kws2
      \<and> out = sort_key (\<lambda>r. - score_key r) (deduplicate_results
                 (concat (keyword_results caps lib kws2 pid2 top_k2 section_filter w2)))
      \<and> sorted (map (\<lambda>r. - score_key r) out))"
proof (intro conjI impI)
  assume a: "retrieval_round caps lib top_k max_rounds pid question intent_result provider
       rnd found prev w = (tr, Inr ended, w')"
  from retrieval_round_evidence [OF a] obtain kws rest where
    k: "tr = Yield (AgentStreamEvent Retrieval (RoundStarted rnd kws)) # rest"
       "filter is_search tr = map (\<lambda>k. Call (VectorSearch k top_k (Some pid))) (take 3 kws)"
       "length (keyword_results caps lib (take 3 kws) (Some pid) top_k None w) = length (take 3 kws)"
       "round_results ended = deduplicate_results
              (found @ concat (keyword_results caps lib (take 3 kws) (Some pid) top_k None w))"
    by auto
  have "length (filter is_search tr) \<le> 3" unfolding k(2) by simp
  with k show "\<exists>kws rest. tr = Yield (AgentStreamEvent Retrieval (RoundStarted rnd kws)) # rest
         \<and> filter is_search tr = map (\<lambda>k. Call (VectorSearch k top_k (Some pid))) (take 3 kws)
         \<and> length (filter is_search tr) \<le> 3
         \<and> length (keyword_results caps lib (take 3 kws) (Some pid) top_k None w)
             = length (take 3 kws)
         \<and> round_results ended = deduplicate_results
              (found @ concat (keyword_results caps lib (take 3 kws) (Some pid) top_k None w))"
    by blast
next
  show "subseq (deduplicate_results ext) ext"
    by (simp add: deduplicate_results_fresh fresh_subseq)
  show "distinct (map chunk_id (deduplicate_results ext))"
    by (simp add: deduplicate_results_fresh fresh_distinct)
  show "\<forall>r\<in>set (deduplicate_results ext). find (\<lambda>s. chunk_id s = chunk_id r) ext = Some r"
    by (simp add: deduplicate_results_fresh fresh_find)
  show "\<forall>r\<in>set ext. \<forall>c. chunk_id r = Val c \<and> c \<noteq> []
          \<longrightarrow> Val c \<in> chunk_id ` set (deduplicate_results ext)"
    using fresh_covers [of _ ext _ "{}"] by (auto simp: deduplicate_results_fresh)
next
  assume b: "search_multi_keywords caps lib kws2 pid2 top_k2 section_filter w2 = (tr2, Inr out, w3)"
  obtain tr1 r1 w1 where s: "search_each_keyword caps lib kws2 pid2 top_k2 section_filter ({}, []) w2
      = (tr1, r1, w1)" by (metis prod_cases3)
  from b s obtain merged where m: "r1 = Inr merged" "tr2 = tr1" "sort_by_score merged = Inr out"
    by (cases r1) (auto simp: search_multi_keywords_def)
  from search_each_keyword_results [OF s [unfolded m(1)]] have
    bt: "tr1 = map (\<lambda>k. Call (VectorSearch k
                (if (case section_filter of None \<Rightarrow> False | Some fs \<Rightarrow> fs \<noteq> [])
                 then top_k2 * 2 else top_k2) pid2)) kws2"
        "length (keyword_results caps lib kws2 pid2 top_k2 section_filter w2) = length kws2"
        "merged = fresh {} (concat (keyword_results caps lib kws2 pid2 top_k2 section_filter w2))"
    by auto
  have o: "out = sort_key (\<lambda>r. - score_key r) merged"
    using m(3) by (auto simp: sort_by_score_def split: if_splits)
  show "tr2 = map (\<lambda>k. Call (VectorSearch k
                (if (case section_filter of None \<Rightarrow> False | Some fs \<Rightarrow> fs \<noteq> [])
                 then top_k2 * 2 else top_k2) pid2)) kws2"
    using bt(1) m(2) by simp
  then show "length (filter is_search tr2) = length kws2" by simp
  show "length (keyword_results caps lib kws2 pid2 top_k2 section_filter w2) = length kws2"
    by (rule bt(2))
  show "out = sort_key (\<lambda>r. - score_key r) (deduplicate_results
                 (concat (keyword_results caps lib kws2 pid2 top_k2 section_filter w2)))"
    using bt(3) o by (simp add: deduplicate_results_fresh)
  show "sorted (map (\<lambda>r. - score_key r) out)" unfolding o by simp
qed

theorem multi_keyword_retrieval_witness:
  "filter is_search (fst (retrieval_round example_caps example_lib 2 3 (ascii ''p1'') (ascii ''q'')
       \<lparr>category = GENERAL, target_sections = [],
        intent_keywords = [ascii ''a'', ascii ''b'', ascii ''c'', ascii ''d''], reasoning = []\<rparr>
       None 1 [] None 0))
     = [Call (VectorSearch [97] 2 (Some [112, 49])), Call (VectorSearch [98] 2 (Some [112, 49])),
        Call (VectorSearch [99] 2 (Some [112, 49]))]
   \<and> fst (snd (retrieval_round example_caps example_lib 2 3 (ascii ''p1'') (ascii ''q'')
       \<lparr>category = GENERAL, target_sections = [],
        intent_keywords = [ascii ''a'', ascii ''b'', ascii ''c'', ascii ''d''], reasoning = []\<rparr>
       None 1 [] None 0))
     = Inr (Evaluated [fragment (ascii ''c1'') (1 / 2), fragment (ascii ''c2'') (3 / 4)]
              parse_failure_evaluation)
   \<and> [fragment (ascii ''c1'') (1 / 2), fragment (ascii ''c2'') (3 / 4)]
     = deduplicate_results ([] @ concat
         [[fragment (ascii ''c1'') (1 / 2), fragment (ascii ''c2'') (3 / 4)],
          [fragment (ascii ''c1'') (1 / 2), fragment (ascii ''c2'') (3 / 4)],
          [fragment (ascii ''c1'') (1 / 2), fragment (ascii ''c2'') (3 / 4)]])
   \<and> length (filter is_search (fst (search_multi_keywords example_caps example_lib
        [ascii ''a'', ascii ''b'', ascii ''c'', ascii ''d''] (Some (ascii ''p1'')) 2 None 0))) = 4
   \<and> sorted (map (\<lambda>r. - score_key r)
        [fragment (ascii ''c2'') (3 / 4), fragment (ascii ''c1'') (1 / 2)])"
proof -
  from multi_keyword_retrieval [THEN conjunct2, THEN conjunct2, THEN conjunct2, THEN conjunct2,
      THEN conjunct2, THEN mp, OF example_multi_search]
  have s: "length (filter is_search
        [Call (VectorSearch [97] 2 (Some [112, 49])), Call (VectorSearch [98] 2 (Some [112, 49])),
         Call (VectorSearch [99] 2 (Some [112, 49])), Call (VectorSearch [100] 2 (Some [112, 49]))])
        = length [ascii ''a'', ascii ''b'', ascii ''c'', ascii ''d'']"
    "sorted (map (\<lambda>r. - score_key r)
        [fragment (ascii ''c2'') (3 / 4), fragment (ascii ''c1'') (1 / 2)])"
    by blast+
  from multi_keyword_retrieval [THEN conjunct1, THEN mp, OF example_capped_round]
  obtain kws rest where
    k: "[Yield (AgentStreamEvent Retrieval (RoundStarted 1 [[97], [98], [99], [100]])),
       Call (VectorSearch [97] 2 (Some [112, 49])),
       Call (VectorSearch [98] 2 (Some [112, 49])),
       Call (VectorSearch [99] 2 (Some [112, 49])),
       Yield (AgentStreamEvent Retrieval (FragmentsFound 2)),
       Yield (AgentStreamEvent Thinking EvaluatingCompleteness),
       Call (Chat (EvaluationRequest [113]
         [\<lparr>part_index = 1, part_section = Some [73, 110, 116, 114, 111],
           part_score = 1 / 2, part_text = Some [116, 101, 120, 116]\<rparr>,
          \<lparr>part_index = 2, part_section = Some [73, 110, 116, 114, 111],
           part_score = 3 / 4, part_text = Some [116, 101, 120, 116]\<rparr>] None)),
       Yield (AgentStreamEvent Evaluation (InfoSufficient
         [35299, 26512, 22833, 36133, 65292, 40664, 35748, 20449, 24687, 20805, 36275]))]
        = Yield (AgentStreamEvent Retrieval (RoundStarted 1 kws)) # rest"
      "round_results (Evaluated [fragment (ascii ''c1'') (1 / 2), fragment (ascii ''c2'') (3 / 4)]
             parse_failure_evaluation)
        = deduplicate_results ([] @ concat (keyword_results example_caps example_lib (take 3 kws)
            (Some (ascii ''p1'')) 2 None 0))"
    by blast
  from k(1) have "kws = [ascii ''a'', ascii ''b'', ascii ''c'', ascii ''d'']"
    by (simp add: ascii_def)
  with k(2) have "[fragment (ascii ''c1'') (1 / 2), fragment (ascii ''c2'') (3 / 4)]
     = deduplicate_results ([] @ concat
         [[fragment (ascii ''c1'') (1 / 2), fragment (ascii ''c2'') (3 / 4)],
          [fragment (ascii ''c1'') (1 / 2), fragment (ascii ''c2'') (3 / 4)],
          [fragment (ascii ''c1'') (1 / 2), fragment (ascii ''c2'') (3 / 4)]])"
    by (simp only: example_keyword_results round_results.simps)
  with s show ?thesis
    by (simp only: example_capped_round example_multi_search fst_conv snd_conv) simp
qed

text \<open>
  Counterexample to claim C9 as stated: given 4 keywords, \<open>search_multi_keywords\<close> makes
  4 searches, and it returns the chunk "c2" (score 3/4) before the chunk "c1" (score 1/2)
  although "c1" was met first.
\<close>

theorem search_multi_keywords_counterexample:
  "search_multi_keywords example_caps example_lib
     [ascii ''a'', ascii ''b'', ascii ''c'', ascii ''d''] (Some (ascii ''p1'')) 2 None 0
   = ([Call (VectorSearch [97] 2 (Some [112, 49])), Call (VectorSearch [98] 2 (Some [112, 49])),
       Call (VectorSearch [99] 2 (Some [112, 49])), Call (VectorSearch [100] 2 (Some [112, 49]))],
      Inr [fragment (ascii ''c2'') (3 / 4), fragment (ascii ''c1'') (1 / 2)], 4)
   \<and> length (filter is_search
       [Call (VectorSearch [97] 2 (Some [112, 49])), Call (VectorSearch [98] 2 (Some [112, 49])),
        Call (VectorSearch [99] 2 (Some [112, 49])), Call (VectorSearch [100] 2 (Some [112, 49]))]) = 4
   \<and> deduplicate_results
        [fragment (ascii ''c1'') (1 / 2), fragment (ascii ''c2'') (3 / 4),
         fragment (ascii ''c1'') (1 / 2), fragment (ascii ''c2'') (3 / 4),
         fragment (ascii ''c1'') (1 / 2), fragment (ascii ''c2'') (3 / 4),
         fragment (ascii ''c1'') (1 / 2), fragment (ascii ''c2'') (3 / 4)]
      = [fragment (ascii ''c1'') (1 / 2), fragment (ascii ''c2'') (3 / 4)]
   \<and> [fragment (ascii ''c2'') (3 / 4), fragment (ascii ''c1'') (1 / 2)]
      \<noteq> [fragment (ascii ''c1'') (1 / 2), fragment (ascii ''c2'') (3 / 4)]"
  using example_multi_search
  by (simp add: deduplicate_results_def keep_unseen_def fragment_def ascii_def)


section \<open>Results without a chunk id\<close>

lemma source_entries_ids:
  "source_entries rs = Inr entries \<Longrightarrow>
     map src_chunk_id entries = map (\<lambda>r. dict_get (chunk_id r)) rs"
proof (induction rs arbitrary: entries)
  case Nil
  then show ?case by simp
next
  case (Cons r rs)
  then show ?case
    by (auto simp: source_of_def split: sum.splits field.splits)
qed

lemma loop_io_no_sources:
  "list_all loop_io tr \<Longrightarrow> Yield (AgentStreamEvent Sources p) \<notin> set tr"
  by (induction tr) auto

lemma generate_answer_no_sources:
  assumes "generate_answer caps session question provider found w = (tr, res, w')"
  shows "Yield (AgentStreamEvent Sources p) \<notin> set tr"
  using assms by (cases rule: generate_answer_cases) auto

lemma retrieval_loop_ids:
  assumes "retrieval_loop caps lib top_k max_rounds pid question intent_result provider
             initial_vars w = (tr, Inr v, w')"
  shows "\<forall>x\<in>set (all_results v). \<exists>c. chunk_id x = Val c \<and> c \<noteq> []"
proof -
  have "fresh {} (all_results v) = all_results v"
    using retrieval_loop_results [OF assms] by (simp add: initial_vars_def)
  then show ?thesis using fresh_has_id [of _ "{}" "all_results v"] by auto
qed

lemma try_body_sources:
  assumes run: "try_body caps lib top_k self sid session pid question provider w = (tr, res, self2, w2)"
    and src: "Yield (AgentStreamEvent Sources (SourceList entries)) \<in> set tr"
  shows "\<forall>e\<in>set entries. \<exists>c. src_chunk_id e = Some c \<and> c \<noteq> []"
  using run
proof (cases rule: try_body_cases)
  case (intent_failed titles e)
  then show ?thesis using src by simp
next
  case (loop_failed titles intent_result tr_l e wa)
  then show ?thesis using src loop_io_no_sources [OF retrieval_loop_io [OF loop_failed(2)]] by simp
next
  case (answer_failed titles intent_result tr_l v wa wb tr_s e)
  then show ?thesis
    using src loop_io_no_sources [OF retrieval_loop_io [OF answer_failed(2)]]
      generate_answer_no_sources [OF answer_failed(3)] by simp
next
  case (sources_failed titles intent_result tr_l v wa wb tr_s answer e)
  then show ?thesis
    using src loop_io_no_sources [OF retrieval_loop_io [OF sources_failed(2)]]
      generate_answer_no_sources [OF sources_failed(3)] by simp
next
  case (completed titles intent_result tr_l v wa wb tr_s answer wc found)
  then have eq: "entries = found"
    using src loop_io_no_sources [OF retrieval_loop_io [OF completed(2)]]
      generate_answer_no_sources [OF completed(3)] by simp
  have ids: "map src_chunk_id entries = map (\<lambda>r. dict_get (chunk_id r)) (take 5 (all_results v))"
    using source_entries_ids [OF completed(4)] eq by simp
  show ?thesis
  proof
    fix e assume "e \<in> set entries"
    then have "src_chunk_id e \<in> set (map (\<lambda>r. dict_get (chunk_id r)) (take 5 (all_results v)))"
      using ids by (metis image_eqI list.set_map)
    then obtain x where x: "x \<in> set (take 5 (all_results v))" "src_chunk_id e = dict_get (chunk_id x)"
      by auto
    from x(1) have "x \<in> set (all_results v)" by (rule in_set_takeD)
    with retrieval_loop_ids [OF completed(2)] obtain c where "chunk_id x = Val c" "c \<noteq> []" by blast
    with x(2) show "\<exists>c. src_chunk_id e = Some c \<and> c \<noteq> []" by simp
  qed
qed

lemma evaluation_request_context:
  "Call (Chat (EvaluationRequest q ctx p)) \<in> set tr \<Longrightarrow> ctx \<in> set (evaluation_contexts tr)"
  by (induction tr) (auto simp: evaluation_contexts_def)

lemma retrieval_loop_contexts:
  assumes "retrieval_loop caps lib top_k max_rounds pid question intent_result provider v w
             = (tr, res, w')"
  shows "fresh {} (all_results v) = all_results v \<longrightarrow>
           (\<forall>v'. res = Inr v' \<longrightarrow>
              (\<forall>ctx\<in>set (evaluation_contexts tr).
                  \<exists>n. format_context (take n (all_results v')) = Inr ctx))"
  using assms
proof (induction rule: retrieval_loop_induct)
  case (exit v w)
  then show ?case by simp
next
  case (error v w tr e w1)
  then show ?case by simp
next
  case (break v w tr results w1)
  from retrieval_round_evidence [OF break(3)] have
    "evaluation_contexts tr = [] \<or> (\<exists>ctx. evaluation_contexts tr = [ctx]
         \<and> format_context results = Inr ctx)"
    by auto
  then show ?case by (auto intro: exI [of _ "length results"])
next
  case (step v w tr results ev w1 tr' res w2)
  let ?v1 = "after_round v (Evaluated results ev)"
  from retrieval_round_evidence [OF step(3)] have
    c: "evaluation_contexts tr = [] \<or> (\<exists>ctx. evaluation_contexts tr = [ctx]
         \<and> format_context results = Inr ctx)"
    by auto
  from retrieval_round_results [OF step(3), of v] obtain extra where
    m: "all_results ?v1 = deduplicate_results (all_results v @ extra)"
    by blast
  have inv': "fresh {} (all_results ?v1) = all_results ?v1"
    unfolding m by (simp add: deduplicate_results_fresh fresh_idem)
  show ?case
  proof (intro impI allI ballI)
    fix v' ctx
    assume res: "res = Inr v'" and mem: "ctx \<in> set (evaluation_contexts (tr @ tr'))"
    from retrieval_loop_results [OF step(4)] inv' res
    have p: "prefix (all_results ?v1) (all_results v')" by simp
    then have t: "take (length results) (all_results v') = results"
      by (auto simp: prefix_def)
    from mem consider "ctx \<in> set (evaluation_contexts tr)" | "ctx \<in> set (evaluation_contexts tr')"
      by auto
    then show "\<exists>n. format_context (take n (all_results v')) = Inr ctx"
    proof cases
      case 1
      with c have "format_context results = Inr ctx" by auto
      with t show ?thesis by (intro exI [of _ "length results"]) simp
    next
      case 2
      with step.IH inv' res show ?thesis by simp
    qed
  qed
qed

lemma example_unidentified_round:
  "retrieval_round example_caps example_lib 5 3 (ascii ''p1'') (ascii ''m'')
     \<lparr>category = GENERAL, target_sections = [], intent_keywords = [ascii ''m''],
      reasoning = []\<rparr>
     None 1 [] None 0
   = ([Yield (AgentStreamEvent Retrieval (RoundStarted 1 [[109]])),
       Call (VectorSearch [109] 5 (Some [112, 49])),
       Yield (AgentStreamEvent Retrieval (FragmentsFound 1)),
       Yield (AgentStreamEvent Thinking EvaluatingCompleteness),
       Call (Chat (EvaluationRequest [109]
         [\<lparr>part_index = 1, part_section = Some [73, 110, 116, 114, 111],
           part_score = 1 / 3, part_text = Some [116, 101, 120, 116]\<rparr>] None)),
       Yield (AgentStreamEvent Evaluation (InfoSufficient
         [35299, 26512, 22833, 36133, 65292, 40664, 35748, 20449, 24687, 20805, 36275]))],
      Inr (Evaluated [fragment (ascii ''c3'') (1 / 3)] parse_failure_evaluation),
      2)"
  by (simp add: example_defs)

lemma example_unidentified_results:
  "keyword_results example_caps example_lib (take 3 [ascii ''m'']) (Some (ascii ''p1'')) 5 None 0
   = [[unidentified Missing, fragment (ascii ''c3'') (1 / 3), unidentified Null,
       unidentified (Val [])]]"
  by (simp add: search_similar_chunks_def slice_to_def example_caps_def fragment_def ascii_def
        Let_def)

lemma example_unidentified_run:
  "chat_stream example_caps example_lib 5 (example_orchestrator 3) (ascii ''p1'') (ascii ''m'')
     (Some (ascii ''s1'')) None 0
   = ([Yield (AgentStreamEvent Thinking AnalysingIntent),
       Call (LoadParsedContent [112, 49]),
       Call (Chat (IntentRequest [109] [] [] None)),
       Yield (AgentStreamEvent Thinking (IntentRecognised
         \<lparr>category = GENERAL, target_sections = [], intent_keywords = [[109]],
          reasoning = [35299, 26512, 22833, 36133, 65292, 20351, 29992, 40664, 35748, 35774, 32622]\<rparr>)),
       Yield (AgentStreamEvent Retrieval (RoundStarted 1 [[109]])),
       Call (VectorSearch [109] 5 (Some [112, 49])),
       Yield (AgentStreamEvent Retrieval (FragmentsFound 1)),
       Yield (AgentStreamEvent Thinking EvaluatingCompleteness),
       Call (Chat (EvaluationRequest [109]
         [\<lparr>part_index = 1, part_section = Some [73, 110, 116, 114, 111],
           part_score = 1 / 3, part_text = Some [116, 101, 120, 116]\<rparr>] None)),
       Yield (AgentStreamEvent Evaluation (InfoSufficient
         [35299, 26512, 22833, 36133, 65292, 40664, 35748, 20449, 24687, 20805, 36275])),
       Call (ChatStream (AnswerRequest
         [\<lparr>part_index = 1, part_section = Some [73, 110, 116, 114, 111],
           part_score = 1 / 3, part_text = Some [116, 101, 120, 116]\<rparr>] [109] [] None)),
       Yield (AgentStreamEvent Content (Chunk [72, 105])),
       Yield (AgentStreamEvent Content (Chunk [33])),
       Yield (AgentStreamEvent Sources (SourceList
         [\<lparr>src_chunk_id = Some [99, 51], src_section = Some [73, 110, 116, 114, 111],
           src_score = Some (1 / 3), text_preview = [116, 101, 120, 116, 46, 46, 46]\<rparr>])),
       Yield (AgentStreamEvent Done (Flag True))],
      (example_orchestrator 3)\<lparr>sessions := (sessions (example_orchestrator 3))
         ([115, 49] \<mapsto> \<lparr>session_id = [115, 49], paper_id = [112, 49],
            messages = [\<lparr>role = User, content = [109], timestamp = 5\<rparr>,
                        \<lparr>role = Assistant, content = [72, 105, 33], timestamp = 6\<rparr>],
            created_at = 0\<rparr>)\<rparr>,
      7)"
  by (simp add: example_defs fun_upd_eq_iff)

lemma example_unidentified_loop:
  "retrieval_loop example_caps example_lib 5 3 (ascii ''p1'') (ascii ''m'')
     \<lparr>category = GENERAL, target_sections = [], intent_keywords = [ascii ''m''],
      reasoning = []\<rparr>
     None initial_vars 2
   = ([Yield (AgentStreamEvent Retrieval (RoundStarted 1 [[109]])),
       Call (VectorSearch [109] 5 (Some [112, 49])),
       Yield (AgentStreamEvent Retrieval (FragmentsFound 1)),
       Yield (AgentStreamEvent Thinking EvaluatingCompleteness),
       Call (Chat (EvaluationRequest [109]
         [\<lparr>part_index = 1, part_section = Some [73, 110, 116, 114, 111],
           part_score = 1 / 3, part_text = Some [116, 101, 120, 116]\<rparr>] None)),
       Yield (AgentStreamEvent Evaluation (InfoSufficient
         [35299, 26512, 22833, 36133, 65292, 40664, 35748, 20449, 24687, 20805, 36275]))],
      Inr \<lparr>all_results = [fragment (ascii ''c3'') (1 / 3)], current_round = 1,
           sufficient = True, evaluation_result = Some parse_failure_evaluation\<rparr>,
      4)"
  by (simp add: example_defs)

text \<open>
  Claim C10. \<open>_deduplicate_results\<close> returns only results whose chunk id is present,
  not \<open>None\<close> and not empty. The context of every evaluation request of a round is
  rendered from the output of \<open>_deduplicate_results\<close> on the evidence so far and the
  results of the round's searches; the evidence the retrieval loop ends with has such an
  id in every result, and every evaluation context of the loop renders an initial part
  of it; and so has every entry of a "sources" event that \<open>chat_stream\<close> yields.
\<close>

theorem deduplicate_results_truthy_ids:
  "(r \<in> set (deduplicate_results all_found) \<longrightarrow> (\<exists>c. chunk_id r = Val c \<and> c \<noteq> []))
   \<and> (retrieval_round caps lib top_k max_rounds pid question intent_result provider
          rnd found prev w0 = (tr_r, res, w1)
       \<longrightarrow> Call (Chat (EvaluationRequest q ctx p)) \<in> set tr_r
       \<longrightarrow> (\<exists>kws rest. tr_r = Yield (AgentStreamEvent Retrieval (RoundStarted rnd kws)) # rest
              \<and> format_context (deduplicate_results
                   (found @ concat (keyword_results caps lib (take 3 kws) (Some pid) top_k None w0)))
                 = Inr ctx))
   \<and> (retrieval_loop caps lib top_k max_rounds pid question intent_result provider
         initial_vars w2 = (tr_l, Inr v, w3)
       \<longrightarrow> (\<forall>x\<in>set (all_results v). \<exists>c. chunk_id x = Val c \<and> c \<noteq> [])
         \<and> (\<forall>c\<in>set (evaluation_contexts tr_l).
               \<exists>n. format_context (take n (all_results v)) = Inr c))
   \<and> (chat_stream caps lib top_k self pid question sid_opt provider w = (tr, self', w')
       \<longrightarrow> Yield (AgentStreamEvent Sources (SourceList entries)) \<in> set tr
       \<longrightarrow> (\<forall>e\<in>set entries. \<exists>c. src_chunk_id e = Some c \<and> c \<noteq> []))"
proof (intro conjI impI)
  assume "r \<in> set (deduplicate_results all_found)"
  then show "\<exists>c. chunk_id r = Val c \<and> c \<noteq> []"
    using fresh_has_id [of r "{}" all_found] by (auto simp: deduplicate_results_fresh)
next
  assume run: "retrieval_round caps lib top_k max_rounds pid question intent_result provider
          rnd found prev w0 = (tr_r, res, w1)"
    and mem: "Call (Chat (EvaluationRequest q ctx p)) \<in> set tr_r"
  from evaluation_request_context [OF mem] have c: "ctx \<in> set (evaluation_contexts tr_r)" .
  from mem have "tr_r \<noteq> []" by auto
  with retrieval_round_evidence [OF run] c
  show "\<exists>kws rest. tr_r = Yield (AgentStreamEvent Retrieval (RoundStarted rnd kws)) # rest
              \<and> format_context (deduplicate_results
                   (found @ concat (keyword_results caps lib (take 3 kws) (Some pid) top_k None w0)))
                 = Inr ctx"
    by auto
next
  assume "retrieval_loop caps lib top_k max_rounds pid question intent_result provider
         initial_vars w2 = (tr_l, Inr v, w3)"
  then show "\<forall>x\<in>set (all_results v). \<exists>c. chunk_id x = Val c \<and> c \<noteq> []"
    by (rule retrieval_loop_ids)
next
  assume "retrieval_loop caps lib top_k max_rounds pid question intent_result provider
         initial_vars w2 = (tr_l, Inr v, w3)"
  from retrieval_loop_contexts [OF this]
  show "\<forall>c\<in>set (evaluation_contexts tr_l). \<exists>n. format_context (take n (all_results v)) = Inr c"
    by (simp add: initial_vars_def)
next
  assume run: "chat_stream caps lib top_k self pid question sid_opt provider w = (tr, self', w')"
    and src: "Yield (AgentStreamEvent Sources (SourceList entries)) \<in> set tr"
  obtain sid self1 w1 where res: "resolve_session caps self pid sid_opt w = (sid, self1, w1)"
    by (metis prod_cases3)
  from run res show "\<forall>e\<in>set entries. \<exists>c. src_chunk_id e = Some c \<and> c \<noteq> []"
  proof (cases rule: chat_stream_cases)
    case invalid
    then show ?thesis using src by simp
  next
    case (failed session tr0 e)
    then have "Yield (AgentStreamEvent Sources (SourceList entries)) \<in> set tr0" using src by simp
    from try_body_sources [OF failed(3) this] show ?thesis .
  next
    case (finished session)
    from try_body_sources [OF finished(3) src] show ?thesis .
  qed
qed

theorem deduplicate_results_truthy_ids_witness:
  "deduplicate_results
       [unidentified Missing, fragment (ascii ''c3'') (1 / 3), unidentified Null,
        unidentified (Val [])] = [fragment (ascii ''c3'') (1 / 3)]
   \<and> (\<exists>c. chunk_id (fragment (ascii ''c3'') (1 / 3)) = Val c \<and> c \<noteq> [])
   \<and> evaluation_contexts (fst (retrieval_round example_caps example_lib 5 3 (ascii ''p1'')
        (ascii ''m'')
        \<lparr>category = GENERAL, target_sections = [], intent_keywords = [ascii ''m''],
         reasoning = []\<rparr>
        None 1 [] None 0))
      = [[\<lparr>part_index = 1, part_section = Some [73, 110, 116, 114, 111],
           part_score = 1 / 3, part_text = Some [116, 101, 120, 116]\<rparr>]]
   \<and> format_context (deduplicate_results ([] @ concat
        [[unidentified Missing, fragment (ascii ''c3'') (1 / 3), unidentified Null,
          unidentified (Val [])]]))
      = Inr [\<lparr>part_index = 1, part_section = Some [73, 110, 116, 114, 111],
              part_score = 1 / 3, part_text = Some [116, 101, 120, 116]\<rparr>]
   \<and> (\<exists>n. format_context (take n [fragment (ascii ''c3'') (1 / 3)])
          = Inr [\<lparr>part_index = 1, part_section = Some [73, 110, 116, 114, 111],
                  part_score = 1 / 3, part_text = Some [116, 101, 120, 116]\<rparr>])
   \<and> (\<exists>c. src_chunk_id \<lparr>src_chunk_id = Some [99, 51], src_section = Some [73, 110, 116, 114, 111],
           src_score = Some (1 / 3), text_preview = [116, 101, 120, 116, 46, 46, 46]\<rparr> = Some c
         \<and> c \<noteq> [])"
proof -
  note c10 = deduplicate_results_truthy_ids
  have d: "deduplicate_results
       [unidentified Missing, fragment (ascii ''c3'') (1 / 3), unidentified Null,
        unidentified (Val [])] = [fragment (ascii ''c3'') (1 / 3)]"
    by (simp add: deduplicate_results_def keep_unseen_def fragment_def unidentified_def ascii_def)
  then have m: "fragment (ascii ''c3'') (1 / 3) \<in> set (deduplicate_results
       [unidentified Missing, fragment (ascii ''c3'') (1 / 3), unidentified Null,
        unidentified (Val [])])" by simp
  from c10 [THEN conjunct1, THEN mp, OF m]
  have 1: "\<exists>c. chunk_id (fragment (ascii ''c3'') (1 / 3)) = Val c \<and> c \<noteq> []" .
  have e: "evaluation_contexts (fst (retrieval_round example_caps example_lib 5 3 (ascii ''p1'')
        (ascii ''m'')
        \<lparr>category = GENERAL, target_sections = [], intent_keywords = [ascii ''m''],
         reasoning = []\<rparr>
        None 1 [] None 0))
      = [[\<lparr>part_index = 1, part_section = Some [73, 110, 116, 114, 111],
           part_score = 1 / 3, part_text = Some [116, 101, 120, 116]\<rparr>]]"
    by (simp only: example_unidentified_round fst_conv) simp
  have mem: "Call (Chat (EvaluationRequest [109]
         [\<lparr>part_index = 1, part_section = Some [73, 110, 116, 114, 111],
           part_score = 1 / 3, part_text = Some [116, 101, 120, 116]\<rparr>] None))
      \<in> set [Yield (AgentStreamEvent Retrieval (RoundStarted 1 [[109]])),
       Call (VectorSearch [109] 5 (Some [112, 49])),
       Yield (AgentStreamEvent Retrieval (FragmentsFound 1)),
       Yield (AgentStreamEvent Thinking EvaluatingCompleteness),
       Call (Chat (EvaluationRequest [109]
         [\<lparr>part_index = 1, part_section = Some [73, 110, 116, 114, 111],
           part_score = 1 / 3, part_text = Some [116, 101, 120, 116]\<rparr>] None)),
       Yield (AgentStreamEvent Evaluation (InfoSufficient
         [35299, 26512, 22833, 36133, 65292, 40664, 35748, 20449, 24687, 20805, 36275]))]"
    by simp
  from c10 [THEN conjunct2, THEN conjunct1, THEN mp, THEN mp, OF example_unidentified_round mem]
  obtain kws rest where
    k: "[Yield (AgentStreamEvent Retrieval (RoundStarted 1 [[109]])),
       Call (VectorSearch [109] 5 (Some [112, 49])),
       Yield (AgentStreamEvent Retrieval (FragmentsFound 1)),
       Yield (AgentStreamEvent Thinking EvaluatingCompleteness),
       Call (Chat (EvaluationRequest [109]
         [\<lparr>part_index = 1, part_section = Some [73, 110, 116, 114, 111],
           part_score = 1 / 3, part_text = Some [116, 101, 120, 116]\<rparr>] None)),
       Yield (AgentStreamEvent Evaluation (InfoSufficient
         [35299, 26512, 22833, 36133, 65292, 40664, 35748, 20449, 24687, 20805, 36275]))]
        = Yield (AgentStreamEvent Retrieval (RoundStarted 1 kws)) # rest"
      "format_context (deduplicate_results ([] @ concat (keyword_results example_caps example_lib
           (take 3 kws) (Some (ascii ''p1'')) 5 None 0)))
        = Inr [\<lparr>part_index = 1, part_section = Some [73, 110, 116, 114, 111],
                part_score = 1 / 3, part_text = Some [116, 101, 120, 116]\<rparr>]"
    by blast
  from k(1) have "kws = [ascii ''m'']" by (simp add: ascii_def)
  with k(2) have 2: "format_context (deduplicate_results ([] @ concat
        [[unidentified Missing, fragment (ascii ''c3'') (1 / 3), unidentified Null,
          unidentified (Val [])]]))
      = Inr [\<lparr>part_index = 1, part_section = Some [73, 110, 116, 114, 111],
              part_score = 1 / 3, part_text = Some [116, 101, 120, 116]\<rparr>]"
    by (simp only: example_unidentified_results)
  from c10 [THEN conjunct2, THEN conjunct2, THEN conjunct1, THEN mp, OF example_unidentified_loop]
  have 3: "\<exists>n. format_context (take n [fragment (ascii ''c3'') (1 / 3)])
          = Inr [\<lparr>part_index = 1, part_section = Some [73, 110, 116, 114, 111],
                  part_score = 1 / 3, part_text = Some [116, 101, 120, 116]\<rparr>]"
    by simp
  have src: "Yield (AgentStreamEvent Sources (SourceList
         [\<lparr>src_chunk_id = Some [99, 51], src_section = Some [73, 110, 116, 114, 111],
           src_score = Some (1 / 3), text_preview = [116, 101, 120, 116, 46, 46, 46]\<rparr>]))
      \<in> set (fst (chat_stream example_caps example_lib 5 (example_orchestrator 3) (ascii ''p1'')
           (ascii ''m'') (Some (ascii ''s1'')) None 0))"
    by (simp only: example_unidentified_run fst_conv) simp
  obtain t s' w' where run: "chat_stream example_caps example_lib 5 (example_orchestrator 3)
      (ascii ''p1'') (ascii ''m'') (Some (ascii ''s1'')) None 0 = (t, s', w')"
    by (metis prod_cases3)
  from c10 [THEN conjunct2, THEN conjunct2, THEN conjunct2, THEN mp, THEN mp, OF run] src run
  have 4: "\<exists>c. src_chunk_id \<lparr>src_chunk_id = Some [99, 51], src_section = Some [73, 110, 116, 114, 111],
           src_score = Some (1 / 3), text_preview = [116, 101, 120, 116, 46, 46, 46]\<rparr> = Some c
         \<and> c \<noteq> []"
    by simp
  from d 1 e 2 3 4 show ?thesis by blast
qed

end
